theory Spec2Isabelle
  imports Complex_Main "HOL-Library.Word" "HOL-Library.AList"
    "HOL-Library.Char_ord" "HOL-Library.List_Lexorder"
begin

section \<open>Values of the host language\<close>

text \<open>
  A \<open>Buffer\<close> is a sequence of bytes. A number is a double in the source; the
  development keeps the integers exact and writes \<open>NaN\<close> out, since \<open>parseInt\<close> yields it
  and comparisons with it are false. Magnitudes beyond \<open>2 ^ 53\<close> and the infinities are
  outside the model.
\<close>

type_synonym byte = "8 word"
type_synonym buffer = "byte list"

datatype 'a js = NaN | Num 'a

text \<open>
  The errors that the functions below can raise: one for each \<open>throw\<close> that they
  reach, and the two runtime errors of their calls (\<open>Buffer.readInt32BE\<close> past the
  end, a method call on \<open>undefined\<close>).
\<close>

datatype error =
    EntryLength string nat  \<comment> \<open>\<open>checkEntry\<close>: the entry is not 80 characters long\<close>
  | KeyNotFound string      \<comment> \<open>\<open>getMetadataValue\<close>: unable to find the key\<close>
  | NaxisMissing            \<comment> \<open>\<open>numAxis\<close>: NAXIS keyword missing from metadata\<close>
  | AxisIndex nat nat       \<comment> \<open>\<open>sizeAxis\<close>: cannot get index from data with that many axes\<close>
  | InvalidPixelType string \<comment> \<open>\<open>bitsPerPixel\<close>: invalid pixel data type\<close>
  | UnhandledPixelType string \<comment> \<open>\<open>getDataValues\<close>, \<open>default:\<close> branch: \<open>throw new Error(dataType)\<close>\<close>
  | RangeError              \<comment> \<open>a multi-byte read that does not fit in the buffer\<close>
  | TypeError               \<comment> \<open>a method call on \<open>undefined\<close>\<close>

subsection \<open>Strings\<close>

text \<open>
  \<open>Buffer.toString()\<close> decodes UTF-8. On bytes below 128 it maps each byte to the
  character of that code, and this is the case modelled: header blocks hold ASCII text
  only (the comment on class \<open>FitsStructure\<close>), and the theorems on header text assume it.
\<close>

definition toString :: "buffer \<Rightarrow> string" where
  "toString b = map (\<lambda>w. char_of (unat w)) b"

definition fromString :: "string \<Rightarrow> buffer" where
  "fromString s = map (\<lambda>c. of_char c) s"

definition ascii :: "buffer \<Rightarrow> bool" where
  "ascii b = list_all (\<lambda>w. unat w < 128) b"

definition startsWith :: "string \<Rightarrow> string \<Rightarrow> bool" where
  "startsWith s p = (take (length p) s = p)"

text \<open>The ASCII members of the white space and line terminators that \<open>trim\<close> and \<open>parseInt\<close> strip.\<close>

definition isWhiteSpace :: "char \<Rightarrow> bool" where
  "isWhiteSpace c = (of_char c \<in> {9, 10, 11, 12, 13, 32 :: nat})"

definition trim :: "string \<Rightarrow> string" where
  "trim s = rev (dropWhile isWhiteSpace (rev (dropWhile isWhiteSpace s)))"

text \<open>\<open>s.includes(p)\<close>: \<open>p\<close> occurs in \<open>s\<close> as a contiguous substring.\<close>

fun includesStr :: "string \<Rightarrow> string \<Rightarrow> bool" where
  "includesStr [] p = (p = [])"
| "includesStr (c # s) p = (startsWith (c # s) p \<or> includesStr s p)"

definition toLowerCase :: "string \<Rightarrow> string" where
  "toLowerCase s = map (\<lambda>c. if 65 \<le> (of_char c :: nat) \<and> (of_char c :: nat) \<le> 90
                              then char_of ((of_char c :: nat) + 32) else c) s"

text \<open>The decimal digits of a natural number, as template literals and \<open>String\<close> print it.\<close>

fun natToString :: "nat \<Rightarrow> string" where
  "natToString n =
     (if n < 10 then [char_of (48 + n)]
      else natToString (n div 10) @ [char_of (48 + n mod 10)])"

declare natToString.simps [simp del]

definition numToString :: "int \<Rightarrow> string" where
  "numToString i = (if i < 0 then CHR ''-'' # natToString (nat (- i)) else natToString (nat i))"

subsection \<open>\<open>parseInt\<close> with no radix argument\<close>

definition digitValue :: "char \<Rightarrow> nat option" where
  "digitValue c =
     (let n = (of_char c :: nat) in
      if 48 \<le> n \<and> n \<le> 57 then Some (n - 48)
      else if 97 \<le> n \<and> n \<le> 122 then Some (n - 87)
      else if 65 \<le> n \<and> n \<le> 90 then Some (n - 55)
      else None)"

definition isDigit :: "nat \<Rightarrow> char \<Rightarrow> bool" where
  "isDigit radix c = (case digitValue c of None \<Rightarrow> False | Some d \<Rightarrow> d < radix)"

definition digitsValue :: "nat \<Rightarrow> string \<Rightarrow> nat" where
  "digitsValue radix ds = foldl (\<lambda>acc c. acc * radix + (case digitValue c of None \<Rightarrow> 0 | Some d \<Rightarrow> d)) 0 ds"

definition parseInt :: "string \<Rightarrow> int js" where
  "parseInt s =
     (let s1 = dropWhile isWhiteSpace s;
          sign = (if take 1 s1 = ''-'' then - 1 else 1 :: int);
          s2 = (if take 1 s1 = ''-'' \<or> take 1 s1 = ''+'' then drop 1 s1 else s1);
          hex = (take 2 s2 = ''0x'' \<or> take 2 s2 = ''0X'');
          radix = (if hex then 16 else 10);
          s3 = (if hex then drop 2 s2 else s2);
          z = takeWhile (isDigit radix) s3
      in if z = [] then NaN else Num (sign * int (digitsValue radix z)))"

subsection \<open>\<open>Buffer.subarray\<close>\<close>

text \<open>
  Offsets are clamped to the buffer: a negative offset counts from the end, \<open>NaN\<close> is 0,
  and an end before the start gives the empty buffer.
\<close>

definition adjustOffset :: "int js \<Rightarrow> nat \<Rightarrow> nat" where
  "adjustOffset offset len =
     (case offset of
        NaN \<Rightarrow> 0
      | Num i \<Rightarrow> if i < 0 then (if i + int len > 0 then nat (i + int len) else 0)
                 else if i < int len then nat i else len)"

definition subarray :: "buffer \<Rightarrow> int js \<Rightarrow> int js \<Rightarrow> buffer" where
  "subarray b start stop =
     (let s = adjustOffset start (length b); e = adjustOffset stop (length b)
      in if e > s then take (e - s) (drop s b) else [])"

text \<open>\<open>subarray(start)\<close>: the end defaults to the length.\<close>

definition subarrayFrom :: "buffer \<Rightarrow> int js \<Rightarrow> buffer" where
  "subarrayFrom b start = drop (adjustOffset start (length b)) b"

section \<open>\<open>MetaDataParser\<close>\<close>

definition checkEntry :: "string \<Rightarrow> error + unit" where
  "checkEntry entry = (if length entry \<noteq> 80 then Inl (EntryLength entry (length entry)) else Inr ())"

text \<open>\<open>key.charAt(0)\<close> of the empty string is the empty string, which differs from a space.\<close>

definition isValidKeyword :: "string \<Rightarrow> bool" where
  "isValidKeyword key = (take 1 key \<noteq> '' '' \<and> length key = 8)"

definition hasValue :: "string \<Rightarrow> bool" where
  "hasValue entry = (take 2 (drop 8 entry) = ''= '')"

text \<open>\<open>getKey\<close> returns \<open>undefined\<close> (here \<open>None\<close>) for a keyword that is not valid.\<close>

definition getKey :: "string \<Rightarrow> error + string option" where
  "getKey entry =
     (case checkEntry entry of
        Inl e \<Rightarrow> Inl e
      | Inr _ \<Rightarrow> (let key = take 8 entry in
                  if isValidKeyword key then Inr (Some (trim key)) else Inr None))"

definition getValue :: "string \<Rightarrow> error + string" where
  "getValue entry =
     (case checkEntry entry of
        Inl e \<Rightarrow> Inl e
      | Inr _ \<Rightarrow> Inr (trim (takeWhile (\<lambda>c. c \<noteq> CHR ''/'') (drop 9 entry))))"

definition isCommentaryKeyword :: "string \<Rightarrow> bool" where
  "isCommentaryKeyword key = (key \<in> set [''COMMENT'', ''HISTORY'', ''CONTINUE''])"

section \<open>\<open>FitsStructure\<close>\<close>

text \<open>
  A structure is built from a buffer (\<open>rawData\<close>) and never changes it. Its other fields
  (\<open>rawHeaders\<close>, \<open>headers\<close>, \<open>commentaryHeaders\<close>) cache one scan of that buffer, so
  on a structure whose scan has not been cut short by an exception every method is a
  function of \<open>rawData\<close>; the functions below take the buffer for the structure.
\<close>

definition BLOCK_SIZE :: nat where
  "BLOCK_SIZE = 2880"

definition RECORD_SIZE :: nat where
  "RECORD_SIZE = 80"

text \<open>\<open>Math.ceil(numBytes / BLOCK_SIZE)\<close>; \<open>NaN\<close> stays \<open>NaN\<close>.\<close>

definition numBlocks :: "int js \<Rightarrow> int js" where
  "numBlocks numBytes =
     (case numBytes of NaN \<Rightarrow> NaN | Num n \<Rightarrow> Num (- ((- n) div int BLOCK_SIZE)))"

definition jsAdd :: "int js \<Rightarrow> int js \<Rightarrow> int js" where
  "jsAdd a b = (case a of NaN \<Rightarrow> NaN | Num x \<Rightarrow> (case b of NaN \<Rightarrow> NaN | Num y \<Rightarrow> Num (x + y)))"

definition jsMul :: "int js \<Rightarrow> int js \<Rightarrow> int js" where
  "jsMul a b = (case a of NaN \<Rightarrow> NaN | Num x \<Rightarrow> (case b of NaN \<Rightarrow> NaN | Num y \<Rightarrow> Num (x * y)))"

definition getDataBlock :: "buffer \<Rightarrow> nat \<Rightarrow> buffer" where
  "getDataBlock rawData blockNum =
     subarray rawData (Num ((int blockNum - 1) * int BLOCK_SIZE)) (Num (int blockNum * int BLOCK_SIZE))"

text \<open>The loop \<open>for (i = 0; i < BLOCK_SIZE; i = i + RECORD_SIZE)\<close> runs for \<open>i = 80 j\<close>, \<open>j < 36\<close>.\<close>

definition getMetadataBlock :: "buffer \<Rightarrow> nat \<Rightarrow> string list" where
  "getMetadataBlock rawData blockNum =
     (let buffer = getDataBlock rawData blockNum in
      map (\<lambda>j. toString (subarray buffer (Num (int (j * RECORD_SIZE)))
                                           (Num (int (j * RECORD_SIZE + RECORD_SIZE)))))
          [0 ..< BLOCK_SIZE div RECORD_SIZE])"

subsection \<open>The header scan of \<open>getRawHeaders\<close>\<close>

text \<open>
  The variables of the scan: \<open>metadata\<close> and \<open>found\<close> are the locals of \<open>getRawHeaders\<close>,
  \<open>headers\<close> and \<open>commentaryHeaders\<close> the two maps it fills, kept in insertion order.
\<close>

record scan =
  metadata :: "string list"
  headers :: "(string \<times> string) list"
  commentaryHeaders :: "(string \<times> string list) list"
  found :: bool

definition scanInit :: scan where
  "scanInit = \<lparr>metadata = [], headers = [], commentaryHeaders = [], found = False\<rparr>"

text \<open>The body of the \<open>forEach\<close> callback. An empty key is falsy, as \<open>undefined\<close> is.\<close>

definition scanEntry :: "scan \<Rightarrow> string \<Rightarrow> error + scan" where
  "scanEntry s entry =
     (let s1 = s\<lparr>found := (if \<not> found s then startsWith entry ''END'' else found s),
                  metadata := metadata s @ [entry]\<rparr>
      in case getKey entry of
           Inl e \<Rightarrow> Inl e
         | Inr None \<Rightarrow> Inr s1
         | Inr (Some key) \<Rightarrow>
             if key = [] then Inr s1
             else if isCommentaryKeyword key then
               (let commentary = (case map_of (commentaryHeaders s1) key of None \<Rightarrow> [] | Some c \<Rightarrow> c)
                in Inr (s1\<lparr>commentaryHeaders :=
                             AList.update key (commentary @ [drop 8 entry]) (commentaryHeaders s1)\<rparr>))
             else (case getValue entry of
                     Inl e \<Rightarrow> Inl e
                   | Inr v \<Rightarrow> Inr (s1\<lparr>headers := AList.update key v (headers s1)\<rparr>)))"

fun scanEntries :: "scan \<Rightarrow> string list \<Rightarrow> error + scan" where
  "scanEntries s [] = Inr s"
| "scanEntries s (entry # es) =
     (case scanEntry s entry of Inl e \<Rightarrow> Inl e | Inr s' \<Rightarrow> scanEntries s' es)"

text \<open>An entry that passes the callback has 80 characters, so its block is complete.\<close>

lemma length_toString [simp]: "length (toString b) = length b"
  by (simp add: toString_def)

lemma subarray_nonneg:
  "0 \<le> i \<Longrightarrow> 0 \<le> j \<Longrightarrow> subarray b (Num i) (Num j) = take (nat j - nat i) (drop (nat i) b)"
  by (auto simp: subarray_def adjustOffset_def Let_def min_def)

lemma getDataBlock_Suc:
  "getDataBlock rawData (Suc n) = take BLOCK_SIZE (drop (n * BLOCK_SIZE) rawData)"
  by (simp add: getDataBlock_def subarray_nonneg nat_mult_distrib nat_add_distrib algebra_simps)

lemma getDataBlock_0: "getDataBlock rawData 0 = []"
  by (simp add: getDataBlock_def subarray_def adjustOffset_def Let_def)

lemma getDataBlock_full:
  assumes "BLOCK_SIZE \<le> length (getDataBlock rawData blockNum)"
  shows "1 \<le> blockNum \<and> blockNum * BLOCK_SIZE \<le> length rawData"
proof (cases blockNum)
  case 0
  with assms show ?thesis
    by (simp add: getDataBlock_0 BLOCK_SIZE_def)
next
  case (Suc n)
  with assms show ?thesis
    by (simp add: getDataBlock_Suc BLOCK_SIZE_def)
qed

lemma scanEntry_length: "scanEntry s entry = Inr s' \<Longrightarrow> length entry = 80"
  by (auto simp: scanEntry_def getKey_def checkEntry_def Let_def split: if_splits sum.splits)

lemma scanEntries_length: "scanEntries s es = Inr s' \<Longrightarrow> \<forall>e \<in> set es. length e = 80"
  by (induction es arbitrary: s) (auto split: sum.splits dest: scanEntry_length)

lemma scanEntries_block_full:
  assumes "scanEntries s (getMetadataBlock rawData blockNum) = Inr s'"
  shows "1 \<le> blockNum \<and> blockNum * BLOCK_SIZE \<le> length rawData"
proof -
  let ?b = "getDataBlock rawData blockNum"
  have "toString (subarray ?b (Num (int (35 * RECORD_SIZE))) (Num (int (35 * RECORD_SIZE + RECORD_SIZE))))
          \<in> set (getMetadataBlock rawData blockNum)"
    by (auto simp: getMetadataBlock_def Let_def BLOCK_SIZE_def RECORD_SIZE_def intro!: image_eqI [where x = 35])
  with scanEntries_length [OF assms]
  have "length (subarray ?b (Num (int (35 * RECORD_SIZE))) (Num (int (35 * RECORD_SIZE + RECORD_SIZE)))) = 80"
    by (metis length_toString)
  then have "BLOCK_SIZE \<le> length ?b"
    by (simp add: subarray_nonneg RECORD_SIZE_def BLOCK_SIZE_def)
  then show ?thesis by (rule getDataBlock_full)
qed

text \<open>
  The \<open>while (!found)\<close> loop over the blocks. It ends on every buffer: a block that
  passes the callback holds 36 entries of 80 characters, so it lies within the buffer.
\<close>

function scanBlocks :: "buffer \<Rightarrow> nat \<Rightarrow> scan \<Rightarrow> error + scan" where
  "scanBlocks rawData blockNum s =
     (if found s then Inr s
      else (case scanEntries s (getMetadataBlock rawData blockNum) of
              Inl e \<Rightarrow> Inl e
            | Inr s' \<Rightarrow> scanBlocks rawData (blockNum + 1) s'))"
  by pat_completeness auto
termination
proof (relation "measure (\<lambda>(rawData, blockNum, s). Suc (length rawData) - blockNum * BLOCK_SIZE)")
  show "wf (measure (\<lambda>(rawData, blockNum, s). Suc (length rawData) - blockNum * BLOCK_SIZE))"
    by simp
next
  fix rawData blockNum s s'
  assume "scanEntries s (getMetadataBlock rawData blockNum) = Inr s'"
  then have "blockNum * BLOCK_SIZE \<le> length rawData"
    by (simp add: scanEntries_block_full)
  then show "((rawData, blockNum + 1, s'), (rawData, blockNum, s))
        \<in> measure (\<lambda>(rawData, blockNum, s). Suc (length rawData) - blockNum * BLOCK_SIZE)"
    by (simp add: BLOCK_SIZE_def)
qed

declare scanBlocks.simps [simp del]

definition getRawHeaders :: "buffer \<Rightarrow> error + string list" where
  "getRawHeaders rawData =
     (case scanBlocks rawData 1 scanInit of Inl e \<Rightarrow> Inl e | Inr s \<Rightarrow> Inr (metadata s))"

definition getHeaderMap :: "buffer \<Rightarrow> error + (string \<times> string) list" where
  "getHeaderMap rawData =
     (case scanBlocks rawData 1 scanInit of Inl e \<Rightarrow> Inl e | Inr s \<Rightarrow> Inr (headers s))"

definition getNumHeaderBlocks :: "buffer \<Rightarrow> error + int js" where
  "getNumHeaderBlocks rawData =
     (case getRawHeaders rawData of
        Inl e \<Rightarrow> Inl e
      | Inr raw \<Rightarrow> Inr (numBlocks (Num (int (length raw * RECORD_SIZE)))))"

text \<open>\<open>if (!value)\<close>: a key that is absent gives \<open>undefined\<close>, and the empty string is falsy too.\<close>

definition getMetadataValue :: "buffer \<Rightarrow> string \<Rightarrow> error + string" where
  "getMetadataValue rawData key =
     (case getHeaderMap rawData of
        Inl e \<Rightarrow> Inl e
      | Inr m \<Rightarrow> (case map_of m key of
                   None \<Rightarrow> Inl (KeyNotFound key)
                 | Some v \<Rightarrow> if v = [] then Inl (KeyNotFound key) else Inr v))"

text \<open>The \<open>catch\<close> of \<open>numAxis\<close> replaces every error raised in its \<open>try\<close> block.\<close>

definition numAxis :: "buffer \<Rightarrow> error + nat" where
  "numAxis rawData =
     (case getMetadataValue rawData ''NAXIS'' of
        Inl e \<Rightarrow> Inl NaxisMissing
      | Inr naxis \<Rightarrow> (case parseInt naxis of
                       NaN \<Rightarrow> Inl NaxisMissing
                     | Num n \<Rightarrow> if n < 0 \<or> n > 999 then Inl NaxisMissing else Inr (nat n)))"

definition sizeAxis :: "buffer \<Rightarrow> nat \<Rightarrow> error + int js" where
  "sizeAxis rawData index =
     (case numAxis rawData of
        Inl e \<Rightarrow> Inl e
      | Inr n \<Rightarrow> if n \<le> 0 then Inl (AxisIndex index n)
                 else (case getMetadataValue rawData (''NAXIS'' @ natToString index) of
                         Inl e \<Rightarrow> Inl e
                       | Inr v \<Rightarrow> Inr (parseInt v)))"

definition pixelDataType :: "buffer \<Rightarrow> error + string" where
  "pixelDataType rawData = getMetadataValue rawData ''BITPIX''"

text \<open>The values of the enum \<open>PixelDataType\<close>, in its order.\<close>

definition PixelDataType :: "string list" where
  "PixelDataType = [''8'', ''16'', ''32'', ''64'', ''-32'', ''-64'']"

definition jsAbs :: "int js \<Rightarrow> int js" where
  "jsAbs a = (case a of NaN \<Rightarrow> NaN | Num x \<Rightarrow> Num \<bar>x\<bar>)"

definition bitsPerPixel :: "buffer \<Rightarrow> error + int js" where
  "bitsPerPixel rawData =
     (case pixelDataType rawData of
        Inl e \<Rightarrow> Inl e
      | Inr dataType \<Rightarrow> if dataType \<in> set PixelDataType then Inr (jsAbs (parseInt dataType))
                        else Inl (InvalidPixelType dataType))"

text \<open>
  \<open>bitsPerPixel() / 8\<close>: the bit widths of the enum are multiples of 8, so the quotient
  is the integer below.
\<close>

definition jsDiv8 :: "int js \<Rightarrow> int js" where
  "jsDiv8 a = (case a of NaN \<Rightarrow> NaN | Num x \<Rightarrow> Num (x div 8))"

text \<open>The loop \<open>for (i = 1; i <= numAxis; i++)\<close> of \<open>getDataSize\<close>, over the indices left.\<close>

fun dataSizeLoop :: "buffer \<Rightarrow> nat list \<Rightarrow> int js \<Rightarrow> error + int js" where
  "dataSizeLoop rawData [] prd = Inr prd"
| "dataSizeLoop rawData (i # rest) prd =
     (case sizeAxis rawData i of
        Inl e \<Rightarrow> Inl e
      | Inr len \<Rightarrow> dataSizeLoop rawData rest (jsMul prd len))"

definition getDataSize :: "buffer \<Rightarrow> error + int js" where
  "getDataSize rawData =
     (case numAxis rawData of
        Inl e \<Rightarrow> Inl e
      | Inr n \<Rightarrow> if n = 0 then Inr (Num 0)
                 else (case bitsPerPixel rawData of
                         Inl e \<Rightarrow> Inl e
                       | Inr bits \<Rightarrow> dataSizeLoop rawData [1 ..< Suc n] (jsDiv8 bits)))"

definition getNumDataBlocks :: "buffer \<Rightarrow> error + int js" where
  "getNumDataBlocks rawData =
     (case getDataSize rawData of Inl e \<Rightarrow> Inl e | Inr sz \<Rightarrow> Inr (numBlocks sz))"

definition getNumStructureBlocks :: "buffer \<Rightarrow> error + int js" where
  "getNumStructureBlocks rawData =
     (case getNumHeaderBlocks rawData of
        Inl e \<Rightarrow> Inl e
      | Inr h \<Rightarrow> (case getNumDataBlocks rawData of Inl e \<Rightarrow> Inl e | Inr d \<Rightarrow> Inr (jsAdd h d)))"

definition getNumStructureBytes :: "buffer \<Rightarrow> error + int js" where
  "getNumStructureBytes rawData =
     (case getNumStructureBlocks rawData of
        Inl e \<Rightarrow> Inl e
      | Inr n \<Rightarrow> Inr (jsMul n (Num (int BLOCK_SIZE))))"

text \<open>\<open>rawData.length > nextStart\<close> is false when \<open>nextStart\<close> is \<open>NaN\<close>.\<close>

definition jsGreater :: "int \<Rightarrow> int js \<Rightarrow> bool" where
  "jsGreater a b = (case b of NaN \<Rightarrow> False | Num y \<Rightarrow> a > y)"

text \<open>The successor is a new structure on the rest of the buffer, or \<open>undefined\<close> (\<open>None\<close>).\<close>

definition getNextStructure :: "buffer \<Rightarrow> error + buffer option" where
  "getNextStructure rawData =
     (case getNumStructureBytes rawData of
        Inl e \<Rightarrow> Inl e
      | Inr nextStart \<Rightarrow>
          if jsGreater (int (length rawData)) nextStart
          then Inr (Some (subarrayFrom rawData nextStart)) else Inr None)"

definition getDataUnit :: "buffer \<Rightarrow> error + buffer" where
  "getDataUnit rawData =
     (case numAxis rawData of
        Inl e \<Rightarrow> Inl e
      | Inr n \<Rightarrow>
          if n = 0 then Inr []
          else (case getNumHeaderBlocks rawData of
                  Inl e \<Rightarrow> Inl e
                | Inr startBlock \<Rightarrow>
                    (case getNumDataBlocks rawData of
                       Inl e \<Rightarrow> Inl e
                     | Inr d \<Rightarrow>
                         (let endBlock = jsAdd startBlock d in
                          Inr (subarray rawData (jsMul startBlock (Num (int BLOCK_SIZE)))
                                                (jsMul endBlock (Num (int BLOCK_SIZE))))))))"

subsection \<open>Decoding the data unit\<close>

text \<open>
  A decoded value: an integer, or the 32 bits of an IEEE single, which are kept as they
  are (floating-point arithmetic is outside this development).
\<close>

datatype sample = IntSample int | FloatSample "32 word"

definition be32 :: "buffer \<Rightarrow> nat \<Rightarrow> 32 word" where
  "be32 data offset = word_of_nat (foldl (\<lambda>acc b. acc * 256 + unat b) 0 (take 4 (drop offset data)))"

definition readUInt8 :: "buffer \<Rightarrow> nat \<Rightarrow> error + sample" where
  "readUInt8 data offset =
     (if offset + 1 \<le> length data then Inr (IntSample (uint (data ! offset))) else Inl RangeError)"

definition readInt32BE :: "buffer \<Rightarrow> nat \<Rightarrow> error + sample" where
  "readInt32BE data offset =
     (if offset + 4 \<le> length data then Inr (IntSample (sint (be32 data offset))) else Inl RangeError)"

definition readFloatBE :: "buffer \<Rightarrow> nat \<Rightarrow> error + sample" where
  "readFloatBE data offset =
     (if offset + 4 \<le> length data then Inr (FloatSample (be32 data offset)) else Inl RangeError)"

text \<open>
  \<open>bytesPerPixel\<close> is \<open>bitsPerPixel() / 8\<close>, and \<open>bitsPerPixel\<close> reads the same \<open>BITPIX\<close>
  string as \<open>pixelDataType\<close>: in the loop it is this function of \<open>dataType\<close>.
\<close>

definition bytesPerPixelOf :: "string \<Rightarrow> nat" where
  "bytesPerPixelOf dataType =
     (case jsDiv8 (jsAbs (parseInt dataType)) of NaN \<Rightarrow> 0 | Num x \<Rightarrow> nat x)"

lemma bytesPerPixelOf_handled [simp]:
  "bytesPerPixelOf ''-32'' = 4" "bytesPerPixelOf ''32'' = 4" "bytesPerPixelOf ''8'' = 1"
  by (simp_all add: bytesPerPixelOf_def jsDiv8_def jsAbs_def parseInt_def isWhiteSpace_def
      isDigit_def digitValue_def digitsValue_def Let_def)

text \<open>The \<open>while (offset < data.length)\<close> loop of \<open>getDataValues\<close> with its \<open>switch\<close>.\<close>

function valuesLoop :: "string \<Rightarrow> buffer \<Rightarrow> nat \<Rightarrow> sample list \<Rightarrow> error + sample list" where
  "valuesLoop dataType data offset values =
     (if offset < length data then
        (if dataType = ''-32'' then
           (case readFloatBE data offset of
              Inl e \<Rightarrow> Inl e
            | Inr v \<Rightarrow> valuesLoop dataType data (offset + bytesPerPixelOf dataType) (values @ [v]))
         else if dataType = ''32'' then
           (case readInt32BE data offset of
              Inl e \<Rightarrow> Inl e
            | Inr v \<Rightarrow> valuesLoop dataType data (offset + bytesPerPixelOf dataType) (values @ [v]))
         else if dataType = ''8'' then
           (case readUInt8 data offset of
              Inl e \<Rightarrow> Inl e
            | Inr v \<Rightarrow> valuesLoop dataType data (offset + bytesPerPixelOf dataType) (values @ [v]))
         else Inl (UnhandledPixelType dataType))
      else Inr values)"
  by pat_completeness auto
termination
  by (relation "measure (\<lambda>(dataType, data, offset, values). length data - offset)") auto

declare valuesLoop.simps [simp del]

definition getDataValues :: "buffer \<Rightarrow> error + sample list" where
  "getDataValues rawData =
     (case getDataUnit rawData of
        Inl e \<Rightarrow> Inl e
      | Inr data \<Rightarrow>
          (case pixelDataType rawData of
             Inl e \<Rightarrow> Inl e
           | Inr dataType \<Rightarrow>
               (case bitsPerPixel rawData of
                  Inl e \<Rightarrow> Inl e
                | Inr bits \<Rightarrow> valuesLoop dataType data 0 [])))"

text \<open>
  \<open>data[i]\<close> past the end of the array is \<open>undefined\<close> (\<open>None\<close>). The counter \<open>i\<close> of
  \<open>getDataValuesArray\<close> is \<open>row * width + col\<close>; a bound that is \<open>NaN\<close> or negative
  gives no iteration.
\<close>

definition elementAt :: "'a list \<Rightarrow> nat \<Rightarrow> 'a option" where
  "elementAt xs i = (if i < length xs then Some (xs ! i) else None)"

definition iterations :: "int js \<Rightarrow> nat" where
  "iterations bound = (case bound of NaN \<Rightarrow> 0 | Num n \<Rightarrow> nat n)"

definition getDataValuesArray :: "buffer \<Rightarrow> error + sample option list list" where
  "getDataValuesArray rawData =
     (case sizeAxis rawData 1 of
        Inl e \<Rightarrow> Inl e
      | Inr width \<Rightarrow>
          (case sizeAxis rawData 2 of
             Inl e \<Rightarrow> Inl e
           | Inr height \<Rightarrow>
               (case getDataValues rawData of
                  Inl e \<Rightarrow> Inl e
                | Inr data \<Rightarrow>
                    Inr (map (\<lambda>row. map (\<lambda>col. elementAt data (row * iterations width + col))
                                         [0 ..< iterations width])
                             [0 ..< iterations height]))))"

definition isImage :: "buffer \<Rightarrow> error + bool" where
  "isImage rawData =
     (case getMetadataValue rawData ''XTENSION'' of
        Inl e \<Rightarrow> Inl e
      | Inr xtension \<Rightarrow> Inr (xtension \<noteq> [] \<and> includesStr (toLowerCase xtension) ''image''))"

subsection \<open>\<open>getDataStats\<close>\<close>

text \<open>
  The body of \<open>getDataStats\<close> after \<open>const data = this.getDataValues()\<close>, for integer
  samples (\<open>BITPIX\<close> 8 and 32). Sums and quotients are exact here, where the source rounds
  to a double. \<open>data.sort()\<close> has no comparator: it orders the elements by their decimal
  strings. An index that is not an integer (\<open>data.length / 2\<close> for an odd length) or that
  is past the end gives \<open>undefined\<close> (\<open>None\<close>); \<open>0 / 0\<close> is \<open>NaN\<close>.
\<close>

definition MAX_VALUE :: real where
  "MAX_VALUE = (2 ^ 53 - 1) * 2 ^ 971"

definition MIN_VALUE :: real where
  "MIN_VALUE = 1 / 2 ^ 1074"

record stats =
  min_val :: real
  max_val :: real
  median :: "int option"
  mean :: "real js"
  stdDev :: "real js"

definition jsSort :: "int list \<Rightarrow> int list" where
  "jsSort data = sort_key numToString data"

definition getDataStats :: "int list \<Rightarrow> stats" where
  "getDataStats data0 =
     (let data = jsSort data0;
          n = length data;
          median = (if even n then elementAt data (n div 2) else None);
          mn = foldl (\<lambda>m v. if real_of_int v < m then real_of_int v else m) MAX_VALUE data;
          mx = foldl (\<lambda>m v. if real_of_int v > m then real_of_int v else m) MIN_VALUE data;
          sum = foldl (\<lambda>a v. a + real_of_int v) 0 data;
          mean = (if n = 0 then NaN else Num (sum / real n));
          stdDev = (case mean of
                      NaN \<Rightarrow> NaN
                    | Num m \<Rightarrow> Num (sqrt (foldl (\<lambda>a v. a + (real_of_int v - m) ^ 2) 0 data / real n)))
      in \<lparr>min_val = mn, max_val = mx, median = median, mean = mean, stdDev = stdDev\<rparr>)"

section \<open>\<open>PrimaryHDU\<close>\<close>

text \<open>
  \<open>load\<close> reads the file into a buffer (the argument here), makes the primary structure of
  it, and collects the successors in \<open>structures\<close>. The \<open>while (next)\<close> loop has no bound
  of its own, so it is a partial function: \<open>None\<close> is a walk that does not end.
\<close>

record PrimaryHDU =
  hdu :: buffer
  structures :: "buffer list"

partial_function (option) loadLoop :: "buffer option \<Rightarrow> buffer list \<Rightarrow> (error + buffer list) option" where
  "loadLoop next structs =
     (case next of
        None \<Rightarrow> Some (Inr structs)
      | Some n \<Rightarrow> (case getNextStructure n of
                    Inl e \<Rightarrow> Some (Inl e)
                  | Inr next' \<Rightarrow> loadLoop next' (structs @ [n])))"

definition load :: "buffer \<Rightarrow> (error + PrimaryHDU) option" where
  "load file =
     (case getNextStructure file of
        Inl e \<Rightarrow> Some (Inl e)
      | Inr next \<Rightarrow> (case loadLoop next [] of
                      None \<Rightarrow> None
                    | Some (Inl e) \<Rightarrow> Some (Inl e)
                    | Some (Inr structs) \<Rightarrow> Some (Inr \<lparr>hdu = file, structures = structs\<rparr>)))"

text \<open>\<open>getStructures()[layerNum]\<close>, and a method call on it: on \<open>undefined\<close> a \<open>TypeError\<close>.\<close>

definition getStructure :: "PrimaryHDU \<Rightarrow> nat \<Rightarrow> buffer option" where
  "getStructure p layerNum = elementAt (structures p) layerNum"

definition onStructure :: "(buffer \<Rightarrow> error + 'a) \<Rightarrow> buffer option \<Rightarrow> error + 'a" where
  "onStructure method structure = (case structure of None \<Rightarrow> Inl TypeError | Some s \<Rightarrow> method s)"

section \<open>Records, sample files and the error kinds of the specification\<close>

text \<open>The record of index \<open>j\<close> of a buffer: its bytes \<open>80 j\<close> to \<open>80 j + 79\<close>, as the scan decodes them.\<close>

definition recordAt :: "buffer \<Rightarrow> nat \<Rightarrow> string" where
  "recordAt rawData j =
     toString (subarray rawData (Num (int (j * RECORD_SIZE))) (Num (int (j * RECORD_SIZE + RECORD_SIZE))))"

text \<open>
  A header block written card by card: each card is padded with spaces to 80 columns and
  the block is filled with blank records to 36.
\<close>

definition card :: "string \<Rightarrow> string" where
  "card s = s @ replicate (80 - length s) CHR '' ''"

definition headerEntries :: "string list \<Rightarrow> string list" where
  "headerEntries cards = map card cards @ replicate (36 - length cards) (card [])"

definition headerBlock :: "string list \<Rightarrow> buffer" where
  "headerBlock cards = fromString (concat (headerEntries cards))"

text \<open>A primary unit with no data, and an image extension of 2 by 2 bytes.\<close>

definition primaryCards :: "string list" where
  "primaryCards =
     [''SIMPLE  =                    T'',
      ''BITPIX  =                    8'',
      ''NAXIS   =                    0'',
      ''END'']"

definition primaryUnit :: buffer where
  "primaryUnit = headerBlock primaryCards"

definition imageCards :: "string list" where
  "imageCards =
     [''XTENSION= 'IMAGE   ' '',
      ''BITPIX  =                    8'',
      ''NAXIS   =                    2'',
      ''NAXIS1  =                    2'',
      ''NAXIS2  =                    2'',
      ''END'']"

text \<open>The image unit with its 4 data bytes, and the same unit with the data padded to a block.\<close>

definition imageUnit :: buffer where
  "imageUnit = headerBlock imageCards @ [10, 20, 30, 40]"

definition paddedImageUnit :: buffer where
  "paddedImageUnit = headerBlock imageCards @ [10, 20, 30, 40] @ replicate 2876 0"

definition twoUnitFile :: buffer where
  "twoUnitFile = primaryUnit @ imageUnit"

definition paddedTwoUnitFile :: buffer where
  "paddedTwoUnitFile = primaryUnit @ paddedImageUnit"

text \<open>A unit of one 16-bit integer.\<close>

definition int16Cards :: "string list" where
  "int16Cards =
     [''SIMPLE  =                    T'',
      ''BITPIX  =                   16'',
      ''NAXIS   =                    1'',
      ''NAXIS1  =                    1'',
      ''END'']"

definition int16Unit :: buffer where
  "int16Unit = headerBlock int16Cards @ [0, 1]"

text \<open>A file of one block whose only axis has the length \<open>-2880\<close>.\<close>

definition negativeAxisCards :: "string list" where
  "negativeAxisCards =
     [''SIMPLE  =                    T'',
      ''BITPIX  =                    8'',
      ''NAXIS   =                    1'',
      ''NAXIS1  =                -2880'',
      ''END'']"

definition negativeAxisFile :: buffer where
  "negativeAxisFile = headerBlock negativeAxisCards"

text \<open>A header block with no \<open>END\<close> record.\<close>

definition unterminatedCards :: "string list" where
  "unterminatedCards =
     [''SIMPLE  =                    T'',
      ''BITPIX  =                    8'',
      ''NAXIS   =                    0'']"

definition unterminatedFile :: buffer where
  "unterminatedFile = headerBlock unterminatedCards"

text \<open>A header whose \<open>NAXIS\<close> record has a comment and no value.\<close>

definition blankValueCards :: "string list" where
  "blankValueCards =
     [''SIMPLE  =                    T'',
      ''NAXIS   =                      / number of axes'',
      ''END'']"

definition blankValueFile :: buffer where
  "blankValueFile = headerBlock blankValueCards"

text \<open>A header of two blocks: 36 comment records, then the block of the \<open>END\<close> record.\<close>

definition longHeaderEntries :: "string list" where
  "longHeaderEntries = replicate 36 (card ''COMMENT a header of two blocks'') @ headerEntries [''END'']"

definition longHeaderFile :: buffer where
  "longHeaderFile = fromString (concat longHeaderEntries)"

text \<open>
  The error kinds that the specification names (its section 7), and the kind of each error
  of the source by what raises it; the two runtime errors have no kind there.
\<close>

datatype specError =
    MalformedRecord | MissingTerminator | MissingKeyword | InvalidAxisCount | InvalidAxisIndex
  | InvalidPixelEncoding | UnsupportedEncoding | ShapeMismatch | EmptyInput | IndexOutOfRange
  | IOFailure

fun specKind :: "error \<Rightarrow> specError option" where
  "specKind (EntryLength entry n) = Some MalformedRecord"
| "specKind (KeyNotFound key) = Some MissingKeyword"
| "specKind NaxisMissing = Some InvalidAxisCount"
| "specKind (AxisIndex index n) = Some InvalidAxisIndex"
| "specKind (InvalidPixelType dataType) = Some InvalidPixelEncoding"
| "specKind (UnhandledPixelType dataType) = Some UnsupportedEncoding"
| "specKind RangeError = None"
| "specKind TypeError = None"

section \<open>The header scan, record by record\<close>

lemma unat_of_char: "unat (of_char c :: byte) = of_char c"
proof -
  have "unat (of_nat (of_char c) :: byte) = of_char c mod 2 ^ 8"
    by (simp add: unat_of_nat)
  also have "\<dots> = of_char c"
    using nat_of_char_less_256 [of c] by simp
  finally show ?thesis by (simp only: of_nat_of_char)
qed

lemma toString_fromString [simp]: "toString (fromString s) = s"
  by (simp add: toString_def fromString_def comp_def unat_of_char)

lemma recordAt_take_drop: "recordAt rawData j = toString (take 80 (drop (j * 80) rawData))"
  by (simp add: recordAt_def subarray_nonneg RECORD_SIZE_def nat_add_distrib nat_mult_distrib)

lemma length_recordAt: "length (recordAt rawData j) = min 80 (length rawData - j * 80)"
  by (simp add: recordAt_take_drop)

lemma getMetadataBlock_records:
  "getMetadataBlock rawData (Suc n) = map (recordAt rawData) [36 * n ..< 36 * n + 36]"
proof -
  have "take 80 (drop (j * 80) (take 2880 (drop (n * 2880) rawData)))
        = take 80 (drop ((36 * n + j) * 80) rawData)" if "j < 36" for j
    using that by (simp add: drop_take min_def algebra_simps)
  then have "map (\<lambda>j. toString (take 80 (drop (j * 80) (take 2880 (drop (n * 2880) rawData))))) [0 ..< 36]
             = map (\<lambda>j. recordAt rawData (36 * n + j)) [0 ..< 36]"
    by (simp add: recordAt_take_drop)
  also have "\<dots> = map (recordAt rawData) (map (\<lambda>j. j + 36 * n) [0 ..< 36])"
    by (simp add: comp_def add.commute)
  also have "map (\<lambda>j. j + 36 * n) [0 ..< 36] = [36 * n ..< 36 * n + 36]"
    by (simp only: map_add_upt add.commute)
  finally show ?thesis
    by (simp add: getMetadataBlock_def getDataBlock_Suc Let_def subarray_nonneg BLOCK_SIZE_def
        RECORD_SIZE_def nat_add_distrib nat_mult_distrib)
qed

lemma scanEntry_ok:
  assumes "length e = 80"
  shows "\<exists>s'. scanEntry s e = Inr s' \<and> metadata s' = metadata s @ [e]
              \<and> found s' = (found s \<or> startsWith e ''END'')"
  using assms
  by (auto simp: scanEntry_def getKey_def getValue_def checkEntry_def Let_def split: option.splits)

lemma scanEntry_error:
  "length e \<noteq> 80 \<Longrightarrow> scanEntry s e = Inl (EntryLength e (length e))"
  by (simp add: scanEntry_def getKey_def checkEntry_def Let_def)

lemma scanEntries_ok:
  assumes "\<forall>e \<in> set es. length e = 80"
  shows "\<exists>s'. scanEntries s es = Inr s' \<and> metadata s' = metadata s @ es
              \<and> found s' = (found s \<or> (\<exists>e \<in> set es. startsWith e ''END''))"
  using assms
proof (induction es arbitrary: s)
  case Nil
  then show ?case by simp
next
  case (Cons e es)
  then obtain s1 where s1: "scanEntry s e = Inr s1" "metadata s1 = metadata s @ [e]"
      "found s1 = (found s \<or> startsWith e ''END'')"
    using scanEntry_ok [of e s] by auto
  from Cons obtain s2 where "scanEntries s1 es = Inr s2" "metadata s2 = metadata s1 @ es"
      "found s2 = (found s1 \<or> (\<exists>e \<in> set es. startsWith e ''END''))"
    by (metis list.set_intros(2))
  with s1 show ?case by auto
qed

lemma scanEntries_error:
  assumes "\<forall>e \<in> set xs. length e = 80" "length b \<noteq> 80"
  shows "scanEntries s (xs @ b # ys) = Inl (EntryLength b (length b))"
  using assms
proof (induction xs arbitrary: s)
  case Nil
  then show ?case by (simp add: scanEntry_error)
next
  case (Cons e xs)
  then obtain s1 where "scanEntry s e = Inr s1"
    using scanEntry_ok [of e s] by auto
  with Cons show ?case by simp
qed

subsection \<open>Arithmetic of records and blocks\<close>

lemma block_below: "n < i div 36 \<Longrightarrow> 36 * n + 36 \<le> (i::nat)"
  using less_eq_div_iff_mult_less_eq [of 36 "Suc n" i] by simp

lemma block_of_record: "(n::nat) = i div 36 \<Longrightarrow> 36 * n \<le> i \<and> i < 36 * n + 36"
  by (metis add.commute mod_less_divisor mult.commute div_mult_mod_eq le_add1
      nat_add_left_cancel_less zero_less_numeral)

lemma last_block_record:
  assumes a: "0 = l div 2880 - n" "n * 2880 \<le> l"
  shows "36 * n \<le> l div 80 \<and> l div 80 < 36 * n + (36::nat)"
proof -
  have "36 * n \<le> l div 80"
    using a(2) less_eq_div_iff_mult_less_eq [of 80 "36 * n" l] by simp
  moreover have "l div 2880 \<le> n" using a(1) by simp
  then have "l < (n + 1) * 2880"
    using div_less_iff_less_mult [of 2880 l "n + 1"] by simp
  then have "l div 80 < 36 * n + 36"
    using div_less_iff_less_mult [of 80 l "36 * n + 36"] by simp
  ultimately show ?thesis by simp
qed

lemma next_block_full: "Suc d = l div 2880 - n \<Longrightarrow> Suc n * 2880 \<le> (l::nat)"
  using less_eq_div_iff_mult_less_eq [of 2880 "Suc n" l] by simp

lemma block_records_full: "Suc n * 2880 \<le> (l::nat) \<Longrightarrow> 36 * n + 36 \<le> l div 80"
  using less_eq_div_iff_mult_less_eq [of 80 "36 * n + 36" l] by simp

lemma record_full: "j < l div 80 \<Longrightarrow> j * 80 + 80 \<le> (l::nat)"
  using less_eq_div_iff_mult_less_eq [of 80 "Suc j" l] by simp

lemma partial_record_length: "(l::nat) - l div 80 * 80 = l mod 80"
  by (simp add: minus_div_mult_eq_mod)

lemma upt_block_append:
  assumes "n \<le> k"
  shows "[36 * n ..< 36 * n + 36] @ [36 * Suc n ..< 36 * Suc k] = [36 * n ..< 36 * Suc k]"
proof -
  have "36 * Suc k = 36 * Suc n + (36 * Suc k - 36 * Suc n)" using assms by simp
  then have "[36 * n ..< 36 * Suc k] = [36 * n ..< 36 * n + 36 + (36 * Suc k - 36 * Suc n)]"
    by simp
  also have "\<dots> = [36 * n ..< 36 * n + 36] @ [36 * n + 36 ..< 36 * n + 36 + (36 * Suc k - 36 * Suc n)]"
    by (simp only: upt_add_eq_append [OF le_add1])
  finally show ?thesis using assms by (simp add: add.commute)
qed

subsection \<open>The two outcomes of the scan\<close>

text \<open>
  A scan whose first terminator is record \<open>i\<close> reads the blocks up to the one holding it,
  all of their records, and stops there.
\<close>

lemma scanBlocks_terminator:
  assumes "startsWith (recordAt rawData i) ''END''"
    and "\<forall>j<i. \<not> startsWith (recordAt rawData j) ''END''"
    and "(i div 36 + 1) * 2880 \<le> length rawData"
    and "n \<le> i div 36" and "\<not> found s"
  shows "\<exists>s'. scanBlocks rawData (Suc n) s = Inr s' \<and> found s'
           \<and> metadata s' = metadata s @ map (recordAt rawData) [36 * n ..< 36 * (i div 36 + 1)]"
  using assms(4,5)
proof (induction "i div 36 - n" arbitrary: n s)
  case 0
  then have n: "n = i div 36" by simp
  let ?es = "getMetadataBlock rawData (Suc n)"
  have full: "\<forall>e \<in> set ?es. length e = 80"
    using assms(3) by (auto simp: getMetadataBlock_records length_recordAt n)
  have "36 * n \<le> i \<and> i < 36 * n + 36"
    using n by (rule block_of_record)
  then have "i \<in> set [36 * n ..< 36 * n + 36]"
    by simp
  then have "\<exists>e \<in> set ?es. startsWith e ''END''"
    using assms(1) unfolding getMetadataBlock_records by (metis imageI list.set_map)
  with scanEntries_ok [OF full, of s] obtain s1 where s1: "scanEntries s ?es = Inr s1"
      "metadata s1 = metadata s @ ?es" "found s1"
    by auto
  have "scanBlocks rawData (Suc n) s = scanBlocks rawData (Suc n + 1) s1"
    using \<open>\<not> found s\<close> s1(1) by (subst scanBlocks.simps) simp
  also have "\<dots> = Inr s1"
    using s1(3) by (subst scanBlocks.simps) simp
  finally show ?case
    using s1(2,3) by (simp add: getMetadataBlock_records n add.commute)
next
  case (Suc d)
  then have n: "n < i div 36" by simp
  let ?es = "getMetadataBlock rawData (Suc n)"
  have "(36 * n + 36) * 80 \<le> (i div 36 + 1) * 2880"
    using n by simp
  then have full: "\<forall>e \<in> set ?es. length e = 80"
    using assms(3) by (auto simp: getMetadataBlock_records length_recordAt)
  have "36 * n + 36 \<le> i"
    using n by (rule block_below)
  then have "\<forall>j \<in> set [36 * n ..< 36 * n + 36]. j < i"
    by simp
  then have "\<not> (\<exists>e \<in> set ?es. startsWith e ''END'')"
    using assms(2) unfolding getMetadataBlock_records by auto
  with scanEntries_ok [OF full, of s] \<open>\<not> found s\<close> obtain s1 where s1: "scanEntries s ?es = Inr s1"
      "metadata s1 = metadata s @ ?es" "\<not> found s1"
    by auto
  have step: "scanBlocks rawData (Suc n) s = scanBlocks rawData (Suc (Suc n)) s1"
    using \<open>\<not> found s\<close> s1(1) by (subst scanBlocks.simps) simp
  have "d = i div 36 - Suc n" using Suc(2) by simp
  moreover have "Suc n \<le> i div 36" using n by simp
  ultimately obtain s' where s': "scanBlocks rawData (Suc (Suc n)) s1 = Inr s'" "found s'"
      "metadata s' = metadata s1 @ map (recordAt rawData) [36 * Suc n ..< 36 * (i div 36 + 1)]"
    using Suc(1) [of "Suc n" s1] s1(3) by blast
  have "[36 * n ..< 36 * n + 36] @ [36 * Suc n ..< 36 * Suc (i div 36)] = [36 * n ..< 36 * Suc (i div 36)]"
    using n by (intro upt_block_append) simp
  then have "map (recordAt rawData) [36 * n ..< 36 * n + 36] @ map (recordAt rawData) [36 * Suc n ..< 36 * Suc (i div 36)]
        = map (recordAt rawData) [36 * n ..< 36 * Suc (i div 36)]"
    by (metis map_append)
  with step s' s1(2) show ?case
    by (simp add: getMetadataBlock_records add.commute)
qed

text \<open>
  A scan that meets no terminator among the complete records fails at the first record
  that the end of the buffer cuts short.
\<close>

lemma scanBlocks_no_terminator:
  assumes "\<forall>j < length rawData div 80. \<not> startsWith (recordAt rawData j) ''END''"
    and "\<not> found s" and "n * 2880 \<le> length rawData"
  shows "scanBlocks rawData (Suc n) s
         = Inl (EntryLength (recordAt rawData (length rawData div 80)) (length rawData mod 80))"
  using assms(2,3)
proof (induction "length rawData div 2880 - n" arbitrary: n s)
  case 0
  let ?q = "length rawData div 80"
  have q: "36 * n \<le> ?q" "?q < 36 * n + 36"
    using last_block_record [OF 0(1) 0(3)] by simp_all
  then have "[36 * n ..< 36 * n + 36] = [36 * n ..< ?q] @ [?q ..< 36 * n + 36]"
    using upt_add_eq_append [of "36 * n" ?q "36 * n + 36 - ?q"] by simp
  also have "[?q ..< 36 * n + 36] = ?q # [Suc ?q ..< 36 * n + 36]"
    using q by (simp add: upt_conv_Cons)
  finally have "[36 * n ..< 36 * n + 36] = [36 * n ..< ?q] @ ?q # [Suc ?q ..< 36 * n + 36]" .
  then have es: "getMetadataBlock rawData (Suc n)
      = map (recordAt rawData) [36 * n ..< ?q] @ recordAt rawData ?q # map (recordAt rawData) [Suc ?q ..< 36 * n + 36]"
    by (simp add: getMetadataBlock_records)
  have "j * 80 + 80 \<le> length rawData" if "j < ?q" for j
    using that by (rule record_full)
  then have full: "\<forall>e \<in> set (map (recordAt rawData) [36 * n ..< ?q]). length e = 80"
    by (auto simp: length_recordAt)
  have "length rawData - ?q * 80 = length rawData mod 80"
    by (rule partial_record_length)
  moreover have "length rawData mod 80 < 80" by simp
  ultimately have len: "length (recordAt rawData ?q) = length rawData mod 80"
    by (simp add: length_recordAt)
  then have "length (recordAt rawData ?q) \<noteq> 80"
    by simp
  from scanEntries_error [OF full this] len
  have "scanEntries s (getMetadataBlock rawData (Suc n))
        = Inl (EntryLength (recordAt rawData ?q) (length rawData mod 80))"
    by (simp add: es)
  then show ?case
    using \<open>\<not> found s\<close> by (subst scanBlocks.simps) simp
next
  case (Suc d)
  then have n: "Suc n * 2880 \<le> length rawData" by (simp add: next_block_full)
  let ?es = "getMetadataBlock rawData (Suc n)"
  have full: "\<forall>e \<in> set ?es. length e = 80"
    using n by (auto simp: getMetadataBlock_records length_recordAt)
  have "36 * n + 36 \<le> length rawData div 80"
    using n by (rule block_records_full)
  then have "\<forall>j \<in> set [36 * n ..< 36 * n + 36]. j < length rawData div 80"
    by simp
  then have "\<not> (\<exists>e \<in> set ?es. startsWith e ''END'')"
    using assms(1) unfolding getMetadataBlock_records by auto
  with scanEntries_ok [OF full, of s] \<open>\<not> found s\<close> obtain s1 where s1: "scanEntries s ?es = Inr s1" "\<not> found s1"
    by auto
  have step: "scanBlocks rawData (Suc n) s = scanBlocks rawData (Suc (Suc n)) s1"
    using \<open>\<not> found s\<close> s1(1) by (subst scanBlocks.simps) simp
  have "d = length rawData div 2880 - Suc n" using Suc(2) by simp
  from Suc(1) [OF this s1(2) n] step show ?case by simp
qed

subsection \<open>Headers written card by card\<close>

lemma replicate_numeral: "replicate (numeral k) x = x # replicate (pred_numeral k) x"
  by (simp add: numeral_eq_Suc)

lemma length_concat_records:
  "\<forall>e \<in> set es. length e = 80 \<Longrightarrow> length (concat es) = 80 * length es"
  by (induction es) auto

lemma drop_concat_records:
  "\<forall>e \<in> set es. length e = 80 \<Longrightarrow> drop (j * 80) (concat es) = concat (drop j es)"
proof (induction es arbitrary: j)
  case Nil
  then show ?case by simp
next
  case (Cons e es)
  then show ?case by (cases j) auto
qed

lemma fromString_append [simp]: "fromString (a @ b) = fromString a @ fromString b"
  by (simp add: fromString_def)

lemma length_fromString [simp]: "length (fromString s) = length s"
  by (simp add: fromString_def)

lemma take_fromString: "take n (fromString s) = fromString (take n s)"
  by (simp add: fromString_def take_map)

lemma drop_fromString: "drop n (fromString s) = fromString (drop n s)"
  by (simp add: fromString_def drop_map)

lemma recordAt_concat:
  assumes "\<forall>e \<in> set es. length e = 80" "j < length es"
  shows "recordAt (fromString (concat es) @ rest) j = es ! j"
proof -
  have len: "length (concat es) = 80 * length es"
    using assms(1) by (rule length_concat_records)
  have "j * 80 \<le> length (concat es)" using assms(2) len by simp
  then have "drop (j * 80) (fromString (concat es) @ rest) = fromString (concat (drop j es)) @ rest"
    using assms(1) by (simp add: drop_fromString drop_concat_records)
  also have "drop j es = es ! j # drop (Suc j) es"
    using assms(2) by (simp add: Cons_nth_drop_Suc)
  finally have "take 80 (drop (j * 80) (fromString (concat es) @ rest)) = fromString (es ! j)"
    using assms by simp
  then show ?thesis by (simp add: recordAt_take_drop)
qed

lemma firstBlock_concat:
  assumes "\<forall>e \<in> set es. length e = 80" "length es = 36"
  shows "getMetadataBlock (fromString (concat es) @ rest) (Suc 0) = es"
proof -
  have "map (recordAt (fromString (concat es) @ rest)) [0 ..< 36] = map ((!) es) [0 ..< 36]"
    using assms by (intro map_cong refl recordAt_concat) auto
  also have "\<dots> = es" using assms(2) map_nth [of es] by simp
  finally show ?thesis
    using getMetadataBlock_records [of _ 0] by simp
qed

lemma length_card: "length s \<le> 80 \<Longrightarrow> length (card s) = 80"
  by (simp add: card_def)

lemma headerEntries_records:
  assumes "length cards \<le> 36" "\<forall>c \<in> set cards. length c \<le> 80"
  shows "(\<forall>e \<in> set (headerEntries cards). length e = 80) \<and> length (headerEntries cards) = 36"
  using assms by (auto simp: headerEntries_def length_card)

lemma firstBlock_headerBlock:
  assumes "length cards \<le> 36" "\<forall>c \<in> set cards. length c \<le> 80"
  shows "getMetadataBlock (headerBlock cards @ rest) (Suc 0) = headerEntries cards"
  unfolding headerBlock_def using headerEntries_records [OF assms] by (intro firstBlock_concat) auto

lemma length_headerBlock:
  assumes "length cards \<le> 36" "\<forall>c \<in> set cards. length c \<le> 80"
  shows "length (headerBlock cards) = 2880"
  unfolding headerBlock_def using headerEntries_records [OF assms] by (simp add: length_concat_records)

lemma scanEntries_append:
  "scanEntries s (xs @ ys) = (case scanEntries s xs of Inl e \<Rightarrow> Inl e | Inr s' \<Rightarrow> scanEntries s' ys)"
  by (induction xs arbitrary: s) (auto split: sum.splits)

lemma scanEntry_blank:
  "found s \<Longrightarrow> scanEntry s (card []) = Inr (s\<lparr>metadata := metadata s @ [card []]\<rparr>)"
  by (simp add: scanEntry_def getKey_def checkEntry_def isValidKeyword_def card_def Let_def replicate_numeral)

lemma scanEntries_blank:
  "found s \<Longrightarrow> scanEntries s (replicate m (card [])) = Inr (s\<lparr>metadata := metadata s @ replicate m (card [])\<rparr>)"
proof (induction m arbitrary: s)
  case 0
  then show ?case by simp
next
  case (Suc m)
  then show ?case by (simp add: scanEntry_blank replicate_app_Cons_same)
qed

lemma scan_firstBlock:
  assumes "scanEntries scanInit (getMetadataBlock rawData (Suc 0)) = Inr s" "found s"
  shows "scanBlocks rawData (Suc 0) scanInit = Inr s"
proof -
  have "scanBlocks rawData (Suc 0) scanInit = scanBlocks rawData (Suc 0 + 1) s"
    using assms(1) by (subst scanBlocks.simps) (simp add: scanInit_def)
  also have "\<dots> = Inr s"
    using assms(2) by (subst scanBlocks.simps) simp
  finally show ?thesis .
qed

lemma primary_cards_scan:
  "scanEntries scanInit (map card primaryCards) =
     Inr \<lparr>metadata = map card primaryCards,
          headers = [(''SIMPLE'', ''T''), (''BITPIX'', ''8''), (''NAXIS'', ''0''), (''END'', [])],
          commentaryHeaders = [], found = True\<rparr>"
  by (simp add: primaryCards_def scanInit_def scanEntry_def getKey_def getValue_def checkEntry_def
      isValidKeyword_def isCommentaryKeyword_def startsWith_def trim_def isWhiteSpace_def
      card_def Let_def replicate_numeral)

lemmas entry_eval = scanEntry_def getKey_def getValue_def checkEntry_def
      isValidKeyword_def isCommentaryKeyword_def startsWith_def trim_def isWhiteSpace_def
      card_def Let_def replicate_numeral

lemmas parseInt_eval = parseInt_def isWhiteSpace_def isDigit_def digitValue_def digitsValue_def Let_def

lemma scan_headerBlock:
  assumes "length cards \<le> 36" "\<forall>c \<in> set cards. length c \<le> 80"
    and "scanEntries scanInit (map card cards) = Inr s" "found s"
  shows "scanBlocks (headerBlock cards @ rest) (Suc 0) scanInit
         = Inr (s\<lparr>metadata := metadata s @ replicate (36 - length cards) (card [])\<rparr>)"
proof (rule scan_firstBlock)
  show "scanEntries scanInit (getMetadataBlock (headerBlock cards @ rest) (Suc 0))
        = Inr (s\<lparr>metadata := metadata s @ replicate (36 - length cards) (card [])\<rparr>)"
    using assms by (simp add: firstBlock_headerBlock headerEntries_def scanEntries_append scanEntries_blank)
  show "found (s\<lparr>metadata := metadata s @ replicate (36 - length cards) (card [])\<rparr>)"
    using assms(4) by simp
qed

lemma headerBlock_getHeaderMap:
  assumes "length cards \<le> 36" "\<forall>c \<in> set cards. length c \<le> 80"
    and "scanEntries scanInit (map card cards) = Inr s" "found s"
  shows "getHeaderMap (headerBlock cards @ rest) = Inr (headers s)"
  by (simp add: getHeaderMap_def scan_headerBlock [OF assms])

lemma headerBlock_getRawHeaders:
  assumes "length cards \<le> 36" "\<forall>c \<in> set cards. length c \<le> 80"
    and "scanEntries scanInit (map card cards) = Inr s" "found s"
  shows "getRawHeaders (headerBlock cards @ rest)
         = Inr (metadata s @ replicate (36 - length cards) (card []))"
  by (simp add: getRawHeaders_def scan_headerBlock [OF assms])

lemma scanEntries_metadata:
  "scanEntries s es = Inr s' \<Longrightarrow> metadata s' = metadata s @ es"
  using scanEntries_ok [of es s] scanEntries_length [of s es s'] by auto

lemma headerBlock_getNumHeaderBlocks:
  assumes "length cards \<le> 36" "\<forall>c \<in> set cards. length c \<le> 80"
    and "scanEntries scanInit (map card cards) = Inr s" "found s"
  shows "getNumHeaderBlocks (headerBlock cards @ rest) = Inr (Num 1)"
proof -
  have "metadata s = map card cards"
    using scanEntries_metadata [OF assms(3)] by (simp add: scanInit_def)
  then show ?thesis
    using assms(1)
    by (simp add: getNumHeaderBlocks_def headerBlock_getRawHeaders [OF assms] numBlocks_def
        RECORD_SIZE_def BLOCK_SIZE_def)
qed

subsection \<open>The sample units, evaluated\<close>

lemma primaryCards_wf: "length primaryCards \<le> 36" "\<forall>c \<in> set primaryCards. length c \<le> 80"
  by (simp_all add: primaryCards_def)

lemma primary_getHeaderMap:
  "getHeaderMap (headerBlock primaryCards @ rest)
   = Inr [(''SIMPLE'', ''T''), (''BITPIX'', ''8''), (''NAXIS'', ''0''), (''END'', [])]"
  using headerBlock_getHeaderMap [OF primaryCards_wf primary_cards_scan] by simp

lemma primary_getNumHeaderBlocks: "getNumHeaderBlocks (headerBlock primaryCards @ rest) = Inr (Num 1)"
  using headerBlock_getNumHeaderBlocks [OF primaryCards_wf primary_cards_scan] by simp

lemma primary_numAxis: "numAxis (headerBlock primaryCards @ rest) = Inr 0"
  by (simp add: numAxis_def getMetadataValue_def primary_getHeaderMap parseInt_eval)

lemma primary_getDataValues: "getDataValues primaryUnit = Inr []"
  using primary_getHeaderMap [of "[]"] primary_numAxis [of "[]"]
  by (simp add: getDataValues_def getDataUnit_def pixelDataType_def bitsPerPixel_def
      getMetadataValue_def PixelDataType_def primaryUnit_def valuesLoop.simps)

lemma natToString_digit: "n < 10 \<Longrightarrow> natToString n = [char_of (48 + n)]"
  by (simp add: natToString.simps)

lemma natToString_axes: "natToString (Suc 0) = ''1''" "natToString 2 = ''2''"
  by code_simp+

lemma imageCards_wf: "length imageCards \<le> 36" "\<forall>c \<in> set imageCards. length c \<le> 80"
  by (simp_all add: imageCards_def)

lemma image_cards_scan:
  "scanEntries scanInit (map card imageCards) =
     Inr \<lparr>metadata = map card imageCards,
          headers = [(''XTENSION'', CHR 0x27 # ''IMAGE   '' @ [CHR 0x27]), (''BITPIX'', ''8''), (''NAXIS'', ''2''),
                     (''NAXIS1'', ''2''), (''NAXIS2'', ''2''), (''END'', [])],
          commentaryHeaders = [], found = True\<rparr>"
  by (simp add: imageCards_def scanInit_def entry_eval)

lemma image_getHeaderMap:
  "getHeaderMap (headerBlock imageCards @ rest)
   = Inr [(''XTENSION'', CHR 0x27 # ''IMAGE   '' @ [CHR 0x27]), (''BITPIX'', ''8''), (''NAXIS'', ''2''),
          (''NAXIS1'', ''2''), (''NAXIS2'', ''2''), (''END'', [])]"
  using headerBlock_getHeaderMap [OF imageCards_wf image_cards_scan] by simp

lemma image_getNumHeaderBlocks: "getNumHeaderBlocks (headerBlock imageCards @ rest) = Inr (Num 1)"
  using headerBlock_getNumHeaderBlocks [OF imageCards_wf image_cards_scan] by simp

lemma image_numAxis: "numAxis (headerBlock imageCards @ rest) = Inr 2"
  by (simp add: numAxis_def getMetadataValue_def image_getHeaderMap parseInt_eval)

lemma image_sizeAxis:
  "sizeAxis (headerBlock imageCards @ rest) 1 = Inr (Num 2)"
  "sizeAxis (headerBlock imageCards @ rest) 2 = Inr (Num 2)"
  by (simp_all add: sizeAxis_def image_numAxis getMetadataValue_def image_getHeaderMap
      natToString_axes parseInt_eval)

lemma image_pixelDataType: "pixelDataType (headerBlock imageCards @ rest) = Inr ''8''"
  by (simp add: pixelDataType_def getMetadataValue_def image_getHeaderMap)

lemma image_bitsPerPixel: "bitsPerPixel (headerBlock imageCards @ rest) = Inr (Num 8)"
  by (simp add: bitsPerPixel_def image_pixelDataType PixelDataType_def jsAbs_def parseInt_eval)

lemma image_getDataSize: "getDataSize (headerBlock imageCards @ rest) = Inr (Num 4)"
proof -
  have "[1 ..< Suc 2] = [1, 2]" by (simp add: upt_rec)
  then show ?thesis
    using image_sizeAxis [of rest]
    by (simp add: getDataSize_def image_numAxis image_bitsPerPixel jsDiv8_def jsMul_def)
qed

lemma image_getNumDataBlocks: "getNumDataBlocks (headerBlock imageCards @ rest) = Inr (Num 1)"
  by (simp add: getNumDataBlocks_def image_getDataSize numBlocks_def BLOCK_SIZE_def)

lemma image_getNumStructureBytes: "getNumStructureBytes (headerBlock imageCards @ rest) = Inr (Num 5760)"
  by (simp add: getNumStructureBytes_def getNumStructureBlocks_def image_getNumHeaderBlocks
      image_getNumDataBlocks jsAdd_def jsMul_def BLOCK_SIZE_def)

lemma image_getNextStructure:
  "getNextStructure (headerBlock imageCards @ rest)
   = Inr (if 2880 < length rest then Some (drop 2880 rest) else None)"
  by (simp add: getNextStructure_def image_getNumStructureBytes jsGreater_def
      length_headerBlock [OF imageCards_wf] subarrayFrom_def adjustOffset_def)

lemma image_getDataUnit: "getDataUnit (headerBlock imageCards @ rest) = Inr (take 2880 rest)"
  by (simp add: getDataUnit_def image_numAxis image_getNumHeaderBlocks image_getNumDataBlocks
      jsAdd_def jsMul_def BLOCK_SIZE_def subarray_nonneg length_headerBlock [OF imageCards_wf])

text \<open>The loop on \<open>BITPIX = 8\<close> reads every byte that is left.\<close>

lemma valuesLoop_uint8:
  "valuesLoop ''8'' data offset vals
   = Inr (vals @ map (\<lambda>b. IntSample (uint b)) (drop offset data))"
proof (induction "length data - offset" arbitrary: offset vals)
  case 0
  then show ?case by (subst valuesLoop.simps) simp
next
  case (Suc d)
  then have lt: "offset < length data" by simp
  have "d = length data - Suc offset" using Suc(2) by simp
  from Suc(1) [OF this]
  have "valuesLoop ''8'' data (Suc offset) (vals @ [IntSample (uint (data ! offset))])
        = Inr ((vals @ [IntSample (uint (data ! offset))]) @ map (\<lambda>b. IntSample (uint b)) (drop (Suc offset) data))" .
  moreover have "drop offset data = data ! offset # drop (Suc offset) data"
    using lt by (simp add: Cons_nth_drop_Suc)
  ultimately show ?case
    using lt by (subst valuesLoop.simps) (simp add: readUInt8_def)
qed

lemma image_getDataValues:
  "getDataValues (headerBlock imageCards @ rest) = Inr (map (\<lambda>b. IntSample (uint b)) (take 2880 rest))"
  by (simp add: getDataValues_def image_getDataUnit image_pixelDataType image_bitsPerPixel valuesLoop_uint8)

lemma image_getDataValuesArray:
  "getDataValuesArray (headerBlock imageCards @ [10, 20, 30, 40] @ rest)
   = Inr [[Some (IntSample 10), Some (IntSample 20)], [Some (IntSample 30), Some (IntSample 40)]]"
proof -
  have "[0 ..< 2] = [0, Suc 0]" by (simp add: upt_rec)
  then show ?thesis
    using image_sizeAxis [of "[10, 20, 30, 40] @ rest"]
    by (simp add: getDataValuesArray_def image_getDataValues iterations_def elementAt_def nth_append)
qed

lemma primary_getNextStructure:
  "getNextStructure (headerBlock primaryCards @ rest) = Inr (if rest = [] then None else Some rest)"
proof -
  have "getDataSize (headerBlock primaryCards @ rest) = Inr (Num 0)"
    by (simp add: getDataSize_def primary_numAxis)
  then have "getNumStructureBytes (headerBlock primaryCards @ rest) = Inr (Num 2880)"
    by (simp add: getNumStructureBytes_def getNumStructureBlocks_def primary_getNumHeaderBlocks
        getNumDataBlocks_def numBlocks_def jsAdd_def jsMul_def BLOCK_SIZE_def)
  then show ?thesis
    by (simp add: getNextStructure_def jsGreater_def length_headerBlock [OF primaryCards_wf]
        subarrayFrom_def adjustOffset_def)
qed

lemma load_twoUnitFile:
  "load twoUnitFile = Some (Inr \<lparr>hdu = twoUnitFile, structures = [imageUnit]\<rparr>)"
proof -
  have next1: "getNextStructure twoUnitFile = Inr (Some imageUnit)"
    by (simp add: twoUnitFile_def primaryUnit_def primary_getNextStructure imageUnit_def)
  have next2: "getNextStructure imageUnit = Inr None"
    by (simp add: imageUnit_def image_getNextStructure)
  have "loadLoop (Some imageUnit) [] = loadLoop None [imageUnit]"
    by (subst loadLoop.simps) (simp add: next2)
  also have "\<dots> = Some (Inr [imageUnit])"
    by (subst loadLoop.simps) simp
  finally show ?thesis
    by (simp add: load_def next1)
qed

lemma load_paddedTwoUnitFile:
  "load paddedTwoUnitFile = Some (Inr \<lparr>hdu = paddedTwoUnitFile, structures = [paddedImageUnit]\<rparr>)"
proof -
  have next1: "getNextStructure paddedTwoUnitFile = Inr (Some paddedImageUnit)"
    by (simp add: paddedTwoUnitFile_def primaryUnit_def primary_getNextStructure paddedImageUnit_def)
  have next2: "getNextStructure paddedImageUnit = Inr None"
    by (simp add: paddedImageUnit_def image_getNextStructure)
  have "loadLoop (Some paddedImageUnit) [] = loadLoop None [paddedImageUnit]"
    by (subst loadLoop.simps) (simp add: next2)
  also have "\<dots> = Some (Inr [paddedImageUnit])"
    by (subst loadLoop.simps) simp
  finally show ?thesis
    by (simp add: load_def next1)
qed

lemma jsSort_one_to_five: "jsSort [1, 2, 3, 4, 5] = [1, 2, 3, 4, 5]"
  by (simp add: jsSort_def numToString_def natToString_digit less_char_def less_eq_char_def)

lemma int16Cards_wf: "length int16Cards \<le> 36" "\<forall>c \<in> set int16Cards. length c \<le> 80"
  by (simp_all add: int16Cards_def)

lemma int16_cards_scan:
  "scanEntries scanInit (map card int16Cards) =
     Inr \<lparr>metadata = map card int16Cards,
          headers = [(''SIMPLE'', ''T''), (''BITPIX'', ''16''), (''NAXIS'', ''1''),
                     (''NAXIS1'', ''1''), (''END'', [])],
          commentaryHeaders = [], found = True\<rparr>"
  by (simp add: int16Cards_def scanInit_def entry_eval)

lemma int16_getHeaderMap:
  "getHeaderMap (headerBlock int16Cards @ rest)
   = Inr [(''SIMPLE'', ''T''), (''BITPIX'', ''16''), (''NAXIS'', ''1''), (''NAXIS1'', ''1''), (''END'', [])]"
  using headerBlock_getHeaderMap [OF int16Cards_wf int16_cards_scan] by simp

lemma int16_getNumHeaderBlocks: "getNumHeaderBlocks (headerBlock int16Cards @ rest) = Inr (Num 1)"
  using headerBlock_getNumHeaderBlocks [OF int16Cards_wf int16_cards_scan] by simp

lemma int16_getDataUnit: "getDataUnit int16Unit = Inr [0, 1]"
proof -
  have numAxis: "numAxis int16Unit = Inr 1"
    by (simp add: int16Unit_def numAxis_def getMetadataValue_def int16_getHeaderMap parseInt_eval)
  have "bitsPerPixel int16Unit = Inr (Num 16)"
    by (simp add: int16Unit_def bitsPerPixel_def pixelDataType_def getMetadataValue_def
        int16_getHeaderMap PixelDataType_def jsAbs_def parseInt_eval)
  moreover have "sizeAxis int16Unit (Suc 0) = Inr (Num 1)"
    using numAxis
    by (simp add: sizeAxis_def) (simp add: int16Unit_def getMetadataValue_def int16_getHeaderMap natToString_axes parseInt_eval)
  ultimately have "getNumDataBlocks int16Unit = Inr (Num 1)"
    using numAxis
    by (simp add: getNumDataBlocks_def getDataSize_def jsDiv8_def jsMul_def numBlocks_def BLOCK_SIZE_def)
  moreover have "getNumHeaderBlocks int16Unit = Inr (Num 1)"
    by (simp add: int16Unit_def int16_getNumHeaderBlocks)
  ultimately show ?thesis
    using numAxis
    by (simp add: getDataUnit_def jsAdd_def jsMul_def BLOCK_SIZE_def subarray_nonneg)
       (simp add: int16Unit_def length_headerBlock [OF int16Cards_wf])
qed

lemma negativeAxisCards_wf:
  "length negativeAxisCards \<le> 36" "\<forall>c \<in> set negativeAxisCards. length c \<le> 80"
  by (simp_all add: negativeAxisCards_def)

lemma negativeAxis_cards_scan:
  "scanEntries scanInit (map card negativeAxisCards) =
     Inr \<lparr>metadata = map card negativeAxisCards,
          headers = [(''SIMPLE'', ''T''), (''BITPIX'', ''8''), (''NAXIS'', ''1''),
                     (''NAXIS1'', ''-2880''), (''END'', [])],
          commentaryHeaders = [], found = True\<rparr>"
  by (simp add: negativeAxisCards_def scanInit_def entry_eval)

lemma negativeAxis_getHeaderMap:
  "getHeaderMap negativeAxisFile
   = Inr [(''SIMPLE'', ''T''), (''BITPIX'', ''8''), (''NAXIS'', ''1''), (''NAXIS1'', ''-2880''), (''END'', [])]"
  using headerBlock_getHeaderMap [OF negativeAxisCards_wf negativeAxis_cards_scan, of "[]"]
  by (simp add: negativeAxisFile_def)

lemma negativeAxis_getNumStructureBytes: "getNumStructureBytes negativeAxisFile = Inr (Num 0)"
proof -
  have numAxis: "numAxis negativeAxisFile = Inr 1"
    by (simp add: numAxis_def getMetadataValue_def negativeAxis_getHeaderMap parseInt_eval)
  have "bitsPerPixel negativeAxisFile = Inr (Num 8)"
    by (simp add: bitsPerPixel_def pixelDataType_def getMetadataValue_def
        negativeAxis_getHeaderMap PixelDataType_def jsAbs_def parseInt_eval)
  moreover have "sizeAxis negativeAxisFile (Suc 0) = Inr (Num (- 2880))"
    using numAxis
    by (simp add: sizeAxis_def) (simp add: getMetadataValue_def negativeAxis_getHeaderMap natToString_axes parseInt_eval)
  ultimately have "getNumDataBlocks negativeAxisFile = Inr (Num (- 1))"
    using numAxis
    by (simp add: getNumDataBlocks_def getDataSize_def jsDiv8_def jsMul_def numBlocks_def BLOCK_SIZE_def)
  moreover have "getNumHeaderBlocks negativeAxisFile = Inr (Num 1)"
    using headerBlock_getNumHeaderBlocks [OF negativeAxisCards_wf negativeAxis_cards_scan, of "[]"]
    by (simp add: negativeAxisFile_def)
  ultimately show ?thesis
    by (simp add: getNumStructureBytes_def getNumStructureBlocks_def jsAdd_def jsMul_def)
qed

lemma negativeAxis_getNextStructure: "getNextStructure negativeAxisFile = Inr (Some negativeAxisFile)"
proof -
  have "length negativeAxisFile = 2880"
    by (simp add: negativeAxisFile_def length_headerBlock [OF negativeAxisCards_wf])
  then show ?thesis
    by (simp add: getNextStructure_def negativeAxis_getNumStructureBytes jsGreater_def
        subarrayFrom_def adjustOffset_def)
qed

text \<open>A structure that is its own successor keeps the walk of \<open>load\<close> going for ever.\<close>

lemma loadLoop_returns:
  assumes "getNextStructure u = Inr (Some u)" and "loadLoop nxt acc = Some y"
  shows "nxt \<noteq> Some u"
proof (rule loadLoop.raw_induct [where P = "\<lambda>nxt acc y. nxt \<noteq> Some u", OF _ assms(2)])
  fix f :: "buffer option \<Rightarrow> buffer list \<Rightarrow> (error + buffer list) option"
  fix nxt' acc' y'
  assume IH: "\<And>a b y. f a b = Some y \<Longrightarrow> a \<noteq> Some u"
    and body: "(case nxt' of None \<Rightarrow> Some (Inr acc')
                | Some n \<Rightarrow> (case getNextStructure n of Inl e \<Rightarrow> Some (Inl e)
                             | Inr next' \<Rightarrow> f next' (acc' @ [n]))) = Some y'"
  show "nxt' \<noteq> Some u"
  proof
    assume "nxt' = Some u"
    with body assms(1) have "f (Some u) (acc' @ [u]) = Some y'" by simp
    from IH [OF this] show False by simp
  qed
qed

lemma loadLoop_self_successor:
  assumes "getNextStructure u = Inr (Some u)"
  shows "loadLoop (Some u) structs = None"
  using loadLoop_returns [OF assms, of "Some u" structs] by (cases "loadLoop (Some u) structs") auto

lemma blankValueCards_wf: "length blankValueCards \<le> 36" "\<forall>c \<in> set blankValueCards. length c \<le> 80"
  by (simp_all add: blankValueCards_def)

lemma blankValue_cards_scan:
  "scanEntries scanInit (map card blankValueCards) =
     Inr \<lparr>metadata = map card blankValueCards,
          headers = [(''SIMPLE'', ''T''), (''NAXIS'', []), (''END'', [])],
          commentaryHeaders = [], found = True\<rparr>"
  by (simp add: blankValueCards_def scanInit_def entry_eval)

lemma blankValue_getHeaderMap:
  "getHeaderMap blankValueFile = Inr [(''SIMPLE'', ''T''), (''NAXIS'', []), (''END'', [])]"
  using headerBlock_getHeaderMap [OF blankValueCards_wf blankValue_cards_scan, of "[]"]
  by (simp add: blankValueFile_def)

lemma ascii_fromString: "ascii (fromString s) = (\<forall>c \<in> set s. (of_char c :: nat) < 128)"
  by (simp add: ascii_def fromString_def list_all_iff unat_of_char)

lemma ascii_card: "(\<forall>c \<in> set s. (of_char c :: nat) < 128) \<Longrightarrow> \<forall>c \<in> set (card s). (of_char c :: nat) < 128"
  by (auto simp: card_def)

lemma ascii_headerBlock:
  assumes "\<forall>s \<in> set cards. \<forall>c \<in> set s. (of_char c :: nat) < 128"
  shows "ascii (headerBlock cards)"
proof -
  have "\<forall>c \<in> set (concat (headerEntries cards)). (of_char c :: nat) < 128"
    using assms by (auto simp: headerEntries_def card_def)
  then show ?thesis
    by (simp only: headerBlock_def ascii_fromString)
qed

lemma recordAt_headerBlock:
  assumes "length cards \<le> 36" "\<forall>c \<in> set cards. length c \<le> 80" "j < 36"
  shows "recordAt (headerBlock cards @ rest) j = headerEntries cards ! j"
  unfolding headerBlock_def using headerEntries_records [OF assms(1,2)] assms(3)
  by (intro recordAt_concat) auto

lemma recordAt_past_end: "length rawData \<le> j * 80 \<Longrightarrow> recordAt rawData j = []"
  by (simp add: recordAt_take_drop toString_def)

lemma unterminatedCards_wf:
  "length unterminatedCards \<le> 36" "\<forall>c \<in> set unterminatedCards. length c \<le> 80"
  by (simp_all add: unterminatedCards_def)

lemma unterminated_records:
  "\<forall>j < 36. \<not> startsWith (recordAt unterminatedFile j) ''END''"
proof -
  have "list_all (\<lambda>e. \<not> startsWith e ''END'') (headerEntries unterminatedCards)"
    by (simp add: headerEntries_def unterminatedCards_def card_def startsWith_def list_all_iff replicate_numeral)
  then have "\<forall>j < 36. \<not> startsWith (headerEntries unterminatedCards ! j) ''END''"
    using headerEntries_records [OF unterminatedCards_wf] by (simp add: list_all_length)
  then show ?thesis
    using recordAt_headerBlock [OF unterminatedCards_wf, of _ "[]"] by (simp add: unterminatedFile_def)
qed

lemma ascii_unterminatedFile: "ascii unterminatedFile"
  unfolding unterminatedFile_def by (rule ascii_headerBlock) (simp add: unterminatedCards_def)

lemma ceiling_records:
  "\<lceil>real ((i + 1) * RECORD_SIZE) / real BLOCK_SIZE\<rceil> = int (i div 36 + 1)"
proof -
  have "real ((i + 1) * RECORD_SIZE) / real BLOCK_SIZE = real (i + 1) / 36"
    by (simp add: RECORD_SIZE_def BLOCK_SIZE_def)
  also have "\<lceil>\<dots>\<rceil> = int (i div 36 + 1)"
  proof (rule ceiling_unique)
    have "i = 36 * (i div 36) + i mod 36" by simp
    moreover have "i mod 36 < 36" by simp
    ultimately have b: "36 * (i div 36) \<le> i" "i < 36 * (i div 36) + 36" by linarith+
    then have "36 * real (i div 36) < real (i + 1)"
      by (metis (mono_tags) of_nat_less_iff of_nat_mult of_nat_numeral le_imp_less_Suc Suc_eq_plus1)
    then show "real_of_int (int (i div 36 + 1)) - 1 < real (i + 1) / 36"
      by simp
    have "real (i + 1) \<le> 36 * real (i div 36 + 1)"
      using b(2) by (metis (mono_tags) of_nat_le_iff of_nat_mult of_nat_numeral Suc_eq_plus1 Suc_leI distrib_left mult.right_neutral)
    then show "real (i + 1) / 36 \<le> real_of_int (int (i div 36 + 1))"
      by simp
  qed
  finally show ?thesis .
qed

lemma longHeaderEntries_records:
  "\<forall>e \<in> set longHeaderEntries. length e = 80" "length longHeaderEntries = 72"
  using headerEntries_records [of "[''END'']"]
  by (auto simp: longHeaderEntries_def length_card)

lemma length_longHeaderFile: "length longHeaderFile = 5760"
  by (simp add: longHeaderFile_def length_concat_records longHeaderEntries_records)

lemma recordAt_longHeaderFile: "j < 72 \<Longrightarrow> recordAt longHeaderFile j = longHeaderEntries ! j"
  unfolding longHeaderFile_def
  using recordAt_concat [of longHeaderEntries j "[]"] longHeaderEntries_records by simp

lemma ascii_longHeaderFile: "ascii longHeaderFile"
proof -
  have "\<forall>c \<in> set (concat longHeaderEntries). (of_char c :: nat) < 128"
    by (auto simp: longHeaderEntries_def headerEntries_def card_def)
  then show ?thesis
    by (simp only: longHeaderFile_def ascii_fromString)
qed

lemma longHeader_terminator:
  "startsWith (recordAt longHeaderFile 36) ''END''"
  "\<forall>j < 36. \<not> startsWith (recordAt longHeaderFile j) ''END''"
  by (simp_all add: recordAt_longHeaderFile longHeaderEntries_def nth_append headerEntries_def
      card_def startsWith_def)

lemma valuesLoop_stride4:
  assumes "dataType = ''32'' \<or> dataType = ''-32''"
    and "offset \<le> length data" and "4 dvd (length data - offset)"
  shows "\<exists>vs. valuesLoop dataType data offset vals = Inr (vals @ vs)
              \<and> length vs = (length data - offset) div 4"
  using assms(2,3)
proof (induction "(length data - offset) div 4" arbitrary: offset vals)
  case 0
  then have "length data - offset = 0"
    by (metis dvd_div_eq_0_iff)
  then show ?case
    by (subst valuesLoop.simps) simp
next
  case (Suc k)
  then have left: "4 \<le> length data - offset"
    by (metis Suc_neq_Zero div_less linorder_not_less)
  then have lt: "offset < length data" and fits: "offset + 4 \<le> length data"
    by simp_all
  have "k = (length data - offset - 4) div 4"
    using Suc(2) left by (simp add: le_div_geq)
  then have k: "k = (length data - (offset + 4)) div 4"
    by (simp add: diff_diff_eq)
  have dvd: "4 dvd (length data - (offset + 4))"
    using Suc(4) left by (metis diff_diff_eq dvd_diff_nat dvd_refl)
  define v where "v = (if dataType = ''-32'' then FloatSample (be32 data offset)
                       else IntSample (sint (be32 data offset)))"
  have v: "(if dataType = ''-32'' then readFloatBE data offset else readInt32BE data offset) = Inr v"
    using fits by (simp add: v_def readFloatBE_def readInt32BE_def)
  from Suc(1) [OF k fits dvd, of "vals @ [v]"]
  obtain vs where vs: "valuesLoop dataType data (offset + 4) (vals @ [v]) = Inr ((vals @ [v]) @ vs)"
      "length vs = (length data - (offset + 4)) div 4"
    by blast
  have step: "valuesLoop dataType data offset vals = valuesLoop dataType data (offset + 4) (vals @ [v])"
    using assms(1) lt v by (subst valuesLoop.simps) (auto split: if_splits)
  have "length (v # vs) = (length data - offset) div 4"
    using vs(2) k Suc(2) by simp
  with step vs(1) show ?case
    by (intro exI [of _ "v # vs"]) simp
qed

lemma getNumHeaderBlocks_nonneg:
  assumes "getNumHeaderBlocks rawData = Inr (Num h)"
  shows "0 \<le> h"
proof -
  have "x div 2880 \<le> 0" if "x \<le> 0" for x :: int
    using that by (intro div_nonpos_pos_le0) simp_all
  from this [of "- (int k * int RECORD_SIZE)" for k]
  have "0 \<le> - ((- (int k * int RECORD_SIZE)) div 2880)" for k
    by simp
  with assms show ?thesis
    by (auto simp: getNumHeaderBlocks_def numBlocks_def BLOCK_SIZE_def split: sum.splits)
qed

lemma bitsPerPixel_handled:
  assumes "pixelDataType rawData = Inr dataType" "dataType \<in> {''8'', ''32'', ''-32''}"
  shows "bitsPerPixel rawData = Inr (Num (int (8 * bytesPerPixelOf dataType)))"
  using assms
  by (auto simp: bitsPerPixel_def PixelDataType_def jsAbs_def parseInt_eval)

lemma valuesLoop_handled:
  assumes "dataType \<in> {''8'', ''32'', ''-32''}" "4 dvd length data"
  shows "\<exists>vs. valuesLoop dataType data 0 [] = Inr vs
              \<and> length vs = length data div bytesPerPixelOf dataType"
proof (cases "dataType = ''8''")
  case True
  then show ?thesis by (simp add: valuesLoop_uint8)
next
  case False
  with assms(1) have dt: "dataType = ''32'' \<or> dataType = ''-32''" by simp
  from valuesLoop_stride4 [OF dt, of 0 data "[]"] assms(2) dt show ?thesis by auto
qed

subsection \<open>Where the walk of \<open>load\<close> ends\<close>

text \<open>
  Where the walk of \<open>load\<close> does end: a scan that succeeds has read a block, so the
  successor of a unit whose number of data blocks is not negative starts at least 2880
  bytes further and is shorter than the unit.
\<close>

lemma scanEntries_found: "scanEntries s es = Inr s' \<Longrightarrow> found s \<Longrightarrow> found s'"
  using scanEntries_ok [of es s] scanEntries_length [of s es s'] by auto

lemma scanBlocks_metadata:
  "scanBlocks rawData blockNum s = Inr s' \<Longrightarrow> length (metadata s) \<le> length (metadata s')"
proof (induction rawData blockNum s rule: scanBlocks.induct)
  case (1 rawData blockNum s)
  show ?case
  proof (cases "found s")
    case True
    with 1(2) show ?thesis by (subst (asm) scanBlocks.simps) simp
  next
    case False
    with 1(2) obtain s1 where s1: "scanEntries s (getMetadataBlock rawData blockNum) = Inr s1"
        "scanBlocks rawData (blockNum + 1) s1 = Inr s'"
      by (subst (asm) scanBlocks.simps) (auto split: sum.splits)
    from 1(1) [OF False s1] scanEntries_metadata [OF s1(1)] show ?thesis by simp
  qed
qed

lemma getRawHeaders_block:
  assumes "getRawHeaders rawData = Inr raw"
  shows "36 \<le> length raw"
proof -
  from assms obtain s' where s': "scanBlocks rawData 1 scanInit = Inr s'" "raw = metadata s'"
    by (auto simp: getRawHeaders_def split: sum.splits)
  then obtain s1 where s1: "scanEntries scanInit (getMetadataBlock rawData 1) = Inr s1"
      "scanBlocks rawData (1 + 1) s1 = Inr s'"
    by (subst (asm) scanBlocks.simps) (auto simp: scanInit_def split: sum.splits)
  have "length (metadata s1) = 36"
    using scanEntries_metadata [OF s1(1)]
    by (simp add: scanInit_def getMetadataBlock_def BLOCK_SIZE_def RECORD_SIZE_def)
  with scanBlocks_metadata [OF s1(2)] s'(2) show ?thesis by simp
qed

lemma getNumHeaderBlocks_positive:
  assumes "getNumHeaderBlocks rawData = Inr (Num h)"
  shows "1 \<le> h"
proof -
  from assms obtain raw where raw: "getRawHeaders rawData = Inr raw"
      "h = - ((- (int (length raw) * 80)) div 2880)"
    by (auto simp: getNumHeaderBlocks_def numBlocks_def BLOCK_SIZE_def RECORD_SIZE_def split: sum.splits)
  have "36 \<le> length raw" using raw(1) by (rule getRawHeaders_block)
  then have "- (int (length raw) * 80) \<le> - 2880" by simp
  then have "(- (int (length raw) * 80)) div 2880 \<le> (- 2880) div 2880"
    by (intro zdiv_mono1) simp_all
  then show ?thesis by (simp add: raw(2))
qed

lemma getNextStructure_shorter:
  assumes "getNextStructure rawData = Inr (Some successor)"
    and "getNumDataBlocks rawData = Inr (Num d)" and "0 \<le> d"
  shows "\<exists>k. 2880 \<le> k \<and> k < length rawData \<and> successor = drop k rawData"
proof -
  from assms(1) obtain h where h: "getNumHeaderBlocks rawData = Inr (Num h)"
    by (auto simp: getNextStructure_def getNumStructureBytes_def getNumStructureBlocks_def
        getNumHeaderBlocks_def numBlocks_def split: sum.splits)
  then have "1 \<le> h" by (rule getNumHeaderBlocks_positive)
  then have "2880 \<le> (h + d) * 2880" using assms(3) by simp
  moreover have "getNumStructureBytes rawData = Inr (Num ((h + d) * 2880))"
    using h assms(2)
    by (simp add: getNumStructureBytes_def getNumStructureBlocks_def jsAdd_def jsMul_def BLOCK_SIZE_def)
  ultimately show ?thesis
    using assms(1)
    by (intro exI [of _ "nat ((h + d) * 2880)"])
       (auto simp: getNextStructure_def jsGreater_def subarrayFrom_def adjustOffset_def split: if_splits)
qed

lemma loadLoop_terminates:
  assumes "\<And>k d. k \<le> length file \<Longrightarrow> getNumDataBlocks (drop k file) = Inr (Num d) \<Longrightarrow> 0 \<le> d"
    and "j \<le> length file"
  shows "loadLoop (Some (drop j file)) structs \<noteq> None"
  using assms(2)
proof (induction "length file - j" arbitrary: j structs rule: less_induct)
  case less
  let ?u = "drop j file"
  show ?case
  proof (cases "getNextStructure ?u")
    case (Inl e)
    then show ?thesis by (subst loadLoop.simps) simp
  next
    case (Inr successor)
    show ?thesis
    proof (cases successor)
      case None
      with Inr have "loadLoop (Some ?u) structs = loadLoop None (structs @ [?u])"
        by (subst loadLoop.simps) simp
      also have "\<dots> = Some (Inr (structs @ [?u]))"
        by (subst loadLoop.simps) simp
      finally show ?thesis by simp
    next
      case (Some v)
      with Inr have nxt: "getNextStructure ?u = Inr (Some v)" by simp
      then obtain d where d: "getNumDataBlocks ?u = Inr (Num d)"
        by (auto simp: getNextStructure_def getNumStructureBytes_def getNumStructureBlocks_def
            jsGreater_def jsAdd_def jsMul_def split: sum.splits js.splits if_splits)
      with assms(1) [OF less(2)] have "0 \<le> d" by simp
      from getNextStructure_shorter [OF nxt d this]
      obtain k where k: "2880 \<le> k" "k < length ?u" "v = drop k ?u" by blast
      then have v: "v = drop (j + k) file" and le: "j + k \<le> length file"
        by (simp_all add: add.commute)
      have "length file - (j + k) < length file - j"
        using k(1,2) by simp
      from less(1) [OF this le] have "loadLoop (Some v) (structs @ [?u]) \<noteq> None"
        by (simp add: v)
      moreover have "loadLoop (Some ?u) structs = loadLoop (Some v) (structs @ [?u])"
        using nxt by (subst loadLoop.simps) simp
      ultimately show ?thesis by simp
    qed
  qed
qed

lemma load_terminates:
  assumes "\<And>k d. k \<le> length file \<Longrightarrow> getNumDataBlocks (drop k file) = Inr (Num d) \<Longrightarrow> 0 \<le> d"
  shows "load file \<noteq> None"
proof (cases "getNextStructure file")
  case (Inl e)
  then show ?thesis by (simp add: load_def)
next
  case (Inr successor)
  show ?thesis
  proof (cases successor)
    case None
    have "loadLoop None [] = Some (Inr [])" by (subst loadLoop.simps) simp
    with Inr None show ?thesis by (simp add: load_def)
  next
    case (Some v)
    with Inr have nxt: "getNextStructure file = Inr (Some v)" by simp
    then obtain d where d: "getNumDataBlocks file = Inr (Num d)"
      by (auto simp: getNextStructure_def getNumStructureBytes_def getNumStructureBlocks_def
          jsGreater_def jsAdd_def jsMul_def split: sum.splits js.splits if_splits)
    with assms [of 0] have "0 \<le> d" by simp
    from getNextStructure_shorter [OF nxt d this]
    obtain k where k: "k < length file" "v = drop k file" by blast
    with loadLoop_terminates [where j = k and structs = "[]", OF assms] have "loadLoop (Some v) [] \<noteq> None"
      by simp
    with nxt show ?thesis by (auto simp: load_def split: option.splits sum.splits)
  qed
qed

subsection \<open>Records with no value\<close>

text \<open>
  The value of a record is empty just when its value field, up to the first slash, is
  blank: a record with no value, or with a comment only.
\<close>

lemma trim_empty: "(trim s = []) = (\<forall>c \<in> set s. isWhiteSpace c)"
proof
  assume "trim s = []"
  then have "\<forall>c \<in> set (dropWhile isWhiteSpace s). isWhiteSpace c"
    by (simp add: trim_def dropWhile_eq_Nil_conv)
  then have "dropWhile isWhiteSpace s = []"
    using hd_dropWhile [of isWhiteSpace s] by (cases "dropWhile isWhiteSpace s") auto
  then show "\<forall>c \<in> set s. isWhiteSpace c"
    by (simp add: dropWhile_eq_Nil_conv)
next
  assume "\<forall>c \<in> set s. isWhiteSpace c"
  then show "trim s = []" by (auto simp: trim_def dest: set_dropWhileD)
qed

lemma getValue_empty:
  assumes "length entry = 80"
  shows "(getValue entry = Inr [])
         = (\<forall>c \<in> set (takeWhile (\<lambda>c. c \<noteq> CHR ''/'') (drop 9 entry)). isWhiteSpace c)"
  using assms by (simp add: getValue_def checkEntry_def trim_empty)

section \<open>The claims\<close>

text \<open>
  C1, as amended. For the file of two units (a primary unit with \<open>NAXIS = 0\<close>, then a unit
  with \<open>NAXIS = 2\<close>, \<open>NAXIS1 = 2\<close>, \<open>NAXIS2 = 2\<close>, \<open>BITPIX = 8\<close> and the data bytes
  10, 20, 30, 40), \<open>load\<close> keeps the first unit as \<open>hdu\<close> and collects exactly one unit, the
  second of the file, in \<open>structures\<close>. The 2-D decode of the structure at index 0 is
  \<open>[[10, 20], [30, 40]]\<close>; there is no structure at index 1, and a decode of it raises a
  \<open>TypeError\<close>. The same holds when the data bytes are padded to a block.
\<close>

theorem load_two_units:
  "load twoUnitFile = Some (Inr \<lparr>hdu = twoUnitFile, structures = [imageUnit]\<rparr>)
   \<and> onStructure getDataValuesArray (getStructure \<lparr>hdu = twoUnitFile, structures = [imageUnit]\<rparr> 0)
       = Inr [[Some (IntSample 10), Some (IntSample 20)], [Some (IntSample 30), Some (IntSample 40)]]
   \<and> onStructure getDataValuesArray (getStructure \<lparr>hdu = twoUnitFile, structures = [imageUnit]\<rparr> 1)
       = Inl TypeError
   \<and> load paddedTwoUnitFile = Some (Inr \<lparr>hdu = paddedTwoUnitFile, structures = [paddedImageUnit]\<rparr>)
   \<and> onStructure getDataValuesArray (getStructure \<lparr>hdu = paddedTwoUnitFile, structures = [paddedImageUnit]\<rparr> 0)
       = Inr [[Some (IntSample 10), Some (IntSample 20)], [Some (IntSample 30), Some (IntSample 40)]]"
proof -
  have "getDataValuesArray imageUnit
        = Inr [[Some (IntSample 10), Some (IntSample 20)], [Some (IntSample 30), Some (IntSample 40)]]"
    using image_getDataValuesArray [of "[]"] by (simp add: imageUnit_def)
  moreover have "getDataValuesArray paddedImageUnit
        = Inr [[Some (IntSample 10), Some (IntSample 20)], [Some (IntSample 30), Some (IntSample 40)]]"
    using image_getDataValuesArray [of "replicate 2876 0"] by (simp add: paddedImageUnit_def)
  ultimately show ?thesis
    by (simp add: load_twoUnitFile load_paddedTwoUnitFile onStructure_def getStructure_def elementAt_def)
qed

text \<open>
  C1 as stated fails: on the file of two units, \<open>load\<close> does not yield two units in
  \<open>structures\<close>.
\<close>

theorem load_two_units_counterexample:
  "map_option (map_sum id (length \<circ> structures)) (load twoUnitFile) \<noteq> Some (Inr 2)"
  by (simp add: load_twoUnitFile)

text \<open>
  C2, at the samples 1, 2, 3, 4, 5: the minimum is 1, the maximum 5 and the mean 3, but the
  median is \<open>undefined\<close>, since \<open>data.length / 2\<close> is 2.5 and no element has that index.
\<close>

theorem getDataStats_one_to_five:
  "getDataStats [1, 2, 3, 4, 5]
   = \<lparr>min_val = 1, max_val = 5, median = None, mean = Num 3, stdDev = Num (sqrt 2)\<rparr>"
  by (simp add: getDataStats_def jsSort_one_to_five Let_def elementAt_def MAX_VALUE_def MIN_VALUE_def)

text \<open>
  C3, at a unit with \<open>BITPIX = 16\<close> and two data bytes: the decode raises the error of the
  \<open>default:\<close> branch instead of reading a 16-bit integer.
\<close>

theorem getDataValues_int16Unit: "getDataValues int16Unit = Inl (UnhandledPixelType ''16'')"
proof -
  have "pixelDataType int16Unit = Inr ''16''"
    by (simp add: int16Unit_def pixelDataType_def getMetadataValue_def int16_getHeaderMap)
  moreover have "bitsPerPixel int16Unit = Inr (Num 16)"
    by (simp add: int16Unit_def bitsPerPixel_def pixelDataType_def getMetadataValue_def
        int16_getHeaderMap PixelDataType_def jsAbs_def parseInt_eval)
  moreover have "valuesLoop ''16'' [0, 1] 0 [] = Inl (UnhandledPixelType ''16'')"
    by (subst valuesLoop.simps) simp
  ultimately show ?thesis
    by (simp add: getDataValues_def int16_getDataUnit)
qed

text \<open>
  C4, as amended. On a buffer of ASCII bytes none of whose complete records starts with
  \<open>END\<close>, the header scan ends, and it ends with the error of \<open>checkEntry\<close> (the
  specification's \<open>MalformedRecord\<close>) on the first record that the end of the buffer cuts
  short: the record of index \<open>length div 80\<close>, which has \<open>length mod 80\<close> characters.
\<close>

theorem getRawHeaders_unterminated:
  assumes "ascii rawData"
    and "\<forall>j < length rawData div RECORD_SIZE. \<not> startsWith (recordAt rawData j) ''END''"
  shows "getRawHeaders rawData
         = Inl (EntryLength (recordAt rawData (length rawData div RECORD_SIZE))
                            (length rawData mod RECORD_SIZE))
       \<and> map_sum specKind id (getRawHeaders rawData) = Inl (Some MalformedRecord)"
proof -
  have "scanBlocks rawData (Suc 0) scanInit
        = Inl (EntryLength (recordAt rawData (length rawData div 80)) (length rawData mod 80))"
    using assms(2) by (intro scanBlocks_no_terminator) (simp_all add: RECORD_SIZE_def scanInit_def)
  then show ?thesis
    by (simp add: getRawHeaders_def RECORD_SIZE_def)
qed

theorem getRawHeaders_unterminated_witness:
  "getRawHeaders unterminatedFile = Inl (EntryLength [] 0)"
proof -
  have len: "length unterminatedFile = 2880"
    by (simp add: unterminatedFile_def length_headerBlock [OF unterminatedCards_wf])
  then have "\<forall>j < length unterminatedFile div RECORD_SIZE. \<not> startsWith (recordAt unterminatedFile j) ''END''"
    using unterminated_records by (simp add: RECORD_SIZE_def)
  from getRawHeaders_unterminated [OF ascii_unterminatedFile this] show ?thesis
    by (simp add: len RECORD_SIZE_def recordAt_past_end)
qed

text \<open>
  C4 as stated fails: on the sample header with no \<open>END\<close> record the scan raises the
  error of \<open>checkEntry\<close>, which is not the kind \<open>MissingTerminator\<close>.
\<close>

theorem getRawHeaders_unterminated_counterexample:
  "map_sum specKind id (getRawHeaders unterminatedFile) = Inl (Some MalformedRecord)
   \<and> map_sum specKind id (getRawHeaders unterminatedFile) \<noteq> Inl (Some MissingTerminator)"
proof -
  have "scanBlocks unterminatedFile (Suc 0) scanInit
        = Inl (EntryLength (recordAt unterminatedFile (length unterminatedFile div 80))
                           (length unterminatedFile mod 80))"
    using unterminated_records
    by (intro scanBlocks_no_terminator)
       (simp_all add: scanInit_def unterminatedFile_def length_headerBlock [OF unterminatedCards_wf])
  then show ?thesis by (simp add: getRawHeaders_def)
qed

text \<open>
  C5, at the primary unit, whose header has no \<open>XTENSION\<close> record: \<open>isImage\<close> raises the
  error of \<open>getMetadataValue\<close>.
\<close>

theorem isImage_primaryUnit: "isImage primaryUnit = Inl (KeyNotFound ''XTENSION'')"
  using primary_getHeaderMap [of "[]"] by (simp add: isImage_def getMetadataValue_def primaryUnit_def)

text \<open>
  C6, as amended. On no samples (the decode of a unit with \<open>NAXIS = 0\<close>) the statistics do
  not fail: the result has the minimum \<open>Number.MAX_VALUE\<close>, the maximum \<open>Number.MIN_VALUE\<close>,
  the median \<open>undefined\<close>, and \<open>NaN\<close> for the mean and the standard deviation.
\<close>

theorem getDataStats_empty:
  "getDataValues primaryUnit = Inr []
   \<and> getDataStats [] = \<lparr>min_val = MAX_VALUE, max_val = MIN_VALUE, median = None, mean = NaN, stdDev = NaN\<rparr>"
  by (simp add: primary_getDataValues getDataStats_def jsSort_def Let_def elementAt_def)

text \<open>C6 as stated fails: the result on no samples has \<open>NaN\<close> in its mean.\<close>

theorem getDataStats_empty_counterexample: "mean (getDataStats []) = NaN"
  by (simp add: getDataStats_def jsSort_def Let_def elementAt_def)

text \<open>
  C7. When the blocks up to the one that holds the first \<open>END\<close> record, the record of
  index \<open>i\<close>, are complete in the buffer (so that each of their records has 80
  characters) and hold ASCII bytes, the number of header blocks is
  \<open>ceil((i + 1) * 80 / 2880)\<close>, and the raw record sequence is all the 36 records of each
  of these blocks, those after \<open>END\<close> in the last block included.
\<close>

theorem getNumHeaderBlocks_terminator:
  assumes "ascii (take ((i div 36 + 1) * BLOCK_SIZE) rawData)"
    and "(i div 36 + 1) * BLOCK_SIZE \<le> length rawData"
    and "startsWith (recordAt rawData i) ''END''"
    and "\<forall>j<i. \<not> startsWith (recordAt rawData j) ''END''"
  shows "getNumHeaderBlocks rawData = Inr (Num \<lceil>real ((i + 1) * RECORD_SIZE) / real BLOCK_SIZE\<rceil>)
       \<and> getRawHeaders rawData = Inr (map (recordAt rawData) [0 ..< 36 * (i div 36 + 1)])"
proof -
  have "(i div 36 + 1) * 2880 \<le> length rawData"
    using assms(2) by (simp add: BLOCK_SIZE_def)
  from scanBlocks_terminator [OF assms(3,4) this, of 0 scanInit]
  obtain s' where "scanBlocks rawData (Suc 0) scanInit = Inr s'"
      "metadata s' = map (recordAt rawData) [0 ..< 36 * (i div 36 + 1)]"
    by (auto simp: scanInit_def)
  then have raw: "getRawHeaders rawData = Inr (map (recordAt rawData) [0 ..< 36 * (i div 36 + 1)])"
    by (simp add: getRawHeaders_def)
  have len: "length (map (recordAt rawData) [0 ..< 36 * (i div 36 + 1)]) * RECORD_SIZE
             = (i div 36 + 1) * 2880"
    by (simp add: RECORD_SIZE_def)
  have "numBlocks (Num (int ((i div 36 + 1) * 2880))) = Num (int (i div 36 + 1))"
    by (simp add: numBlocks_def BLOCK_SIZE_def)
  then have "getNumHeaderBlocks rawData = Inr (Num (int (i div 36 + 1)))"
    by (simp only: getNumHeaderBlocks_def raw sum.case len)
  with raw show ?thesis
    by (simp only: ceiling_records simp_thms)
qed

text \<open>
  In the sample header of two blocks the \<open>END\<close> record has the index 36: the header has
  \<open>ceil(37 * 80 / 2880) = 2\<close> blocks and 72 raw records.
\<close>

theorem getNumHeaderBlocks_terminator_witness:
  "getNumHeaderBlocks longHeaderFile = Inr (Num 2)
   \<and> map_sum id length (getRawHeaders longHeaderFile) = Inr 72
   \<and> \<lceil>real ((36 + 1) * RECORD_SIZE) / real BLOCK_SIZE\<rceil> = 2"
proof -
  have h1: "ascii (take ((36 div 36 + 1) * BLOCK_SIZE) longHeaderFile)"
    by (simp add: BLOCK_SIZE_def length_longHeaderFile ascii_longHeaderFile)
  have h2: "(36 div 36 + 1) * BLOCK_SIZE \<le> length longHeaderFile"
    by (simp add: BLOCK_SIZE_def length_longHeaderFile)
  have c: "\<lceil>real ((36 + 1) * RECORD_SIZE) / real BLOCK_SIZE\<rceil> = 2"
    using ceiling_records [of 36] by simp
  note t = getNumHeaderBlocks_terminator [OF h1 h2 longHeader_terminator]
  from t have "getNumHeaderBlocks longHeaderFile = Inr (Num 2)"
    by (simp only: c)
  moreover from t have "map_sum id length (getRawHeaders longHeaderFile) = Inr 72"
    by simp
  ultimately show ?thesis
    using c by (simp only: simp_thms)
qed

text \<open>
  C8, as amended. For a unit with \<open>NAXIS\<close> greater than 0 and a pixel encoding that the
  decode handles (\<open>BITPIX\<close> 8, 32 or -32), whose header is ASCII, whose number of data
  blocks is not negative and whose buffer holds all of its header and data blocks, the
  flat decode succeeds and has \<open>(data blocks * 2880) / (bitsPerPixel / 8)\<close> values: it
  reads the whole block-padded data region, so the count can exceed the product of the
  axis lengths.
\<close>

theorem getDataValues_length:
  assumes "numAxis rawData = Inr n" and "0 < n"
    and "pixelDataType rawData = Inr dataType" and "dataType \<in> {''8'', ''32'', ''-32''}"
    and "getNumHeaderBlocks rawData = Inr (Num h)" and "getNumDataBlocks rawData = Inr (Num d)"
    and "0 \<le> d" and "(h + d) * int BLOCK_SIZE \<le> int (length rawData)"
    and "ascii (take (nat h * BLOCK_SIZE) rawData)"
  shows "\<exists>bits vals. bitsPerPixel rawData = Inr (Num bits) \<and> getDataValues rawData = Inr vals
           \<and> int (length vals) = (d * int BLOCK_SIZE) div (bits div 8)"
proof -
  let ?data = "take (nat d * 2880) (drop (nat h * 2880) rawData)"
  have h: "0 \<le> h" using assms(5) by (rule getNumHeaderBlocks_nonneg)
  have "nat h * 2880 + nat d * 2880 \<le> length rawData"
    using assms(7,8) h by (simp add: BLOCK_SIZE_def nat_le_iff nat_add_distrib nat_mult_distrib algebra_simps)
  then have len: "length ?data = nat d * 2880" by simp
  have "nat ((h + d) * 2880) - nat (h * 2880) = nat d * 2880"
    using assms(7) h by (simp add: nat_add_distrib nat_mult_distrib algebra_simps)
  moreover have "nat (h * 2880) = nat h * 2880"
    using h by (simp add: nat_mult_distrib)
  ultimately have unit: "getDataUnit rawData = Inr ?data"
    using assms(1,2,5,6,7) h
    by (simp add: getDataUnit_def jsAdd_def jsMul_def BLOCK_SIZE_def subarray_nonneg)
  have bits: "bitsPerPixel rawData = Inr (Num (int (8 * bytesPerPixelOf dataType)))"
    using assms(3,4) by (rule bitsPerPixel_handled)
  have "4 dvd length ?data" unfolding len by simp
  from valuesLoop_handled [OF assms(4) this] obtain vs where
    vs: "valuesLoop dataType ?data 0 [] = Inr vs" "length vs = length ?data div bytesPerPixelOf dataType"
    by blast
  have "getDataValues rawData = Inr vs"
    by (simp add: getDataValues_def unit assms(3) bits vs(1))
  moreover have "int (length vs) = (d * int BLOCK_SIZE) div (int (8 * bytesPerPixelOf dataType) div 8)"
  proof -
    have "int (length vs) = int (nat d * 2880 div bytesPerPixelOf dataType)"
      by (simp only: vs(2) len)
    also have "\<dots> = (d * 2880) div int (bytesPerPixelOf dataType)"
      using assms(7) by (simp add: zdiv_int)
    finally show ?thesis by (simp add: BLOCK_SIZE_def)
  qed
  ultimately show ?thesis using bits by blast
qed

text \<open>
  The image unit of 2 by 2 bytes with its data padded to a block decodes to 2880 values.
\<close>

theorem getDataValues_length_witness:
  "map_sum id length (getDataValues paddedImageUnit) = Inr 2880
   \<and> sizeAxis paddedImageUnit 1 = Inr (Num 2) \<and> sizeAxis paddedImageUnit 2 = Inr (Num 2)"
proof -
  let ?rest = "[10, 20, 30, 40] @ replicate 2876 (0 :: byte)"
  have unit: "paddedImageUnit = headerBlock imageCards @ ?rest"
    by (simp add: paddedImageUnit_def)
  have "ascii (headerBlock imageCards)"
    by (rule ascii_headerBlock) (simp add: imageCards_def)
  then have ascii: "ascii (take (nat 1 * BLOCK_SIZE) paddedImageUnit)"
    by (simp add: unit BLOCK_SIZE_def length_headerBlock [OF imageCards_wf])
  have size: "(1 + 1) * int BLOCK_SIZE \<le> int (length paddedImageUnit)"
    by (simp add: unit BLOCK_SIZE_def length_headerBlock [OF imageCards_wf])
  from getDataValues_length [of paddedImageUnit 2 "''8''" 1 1, OF _ _ _ _ _ _ _ size ascii]
  obtain bits vals where "bitsPerPixel paddedImageUnit = Inr (Num bits)"
      "getDataValues paddedImageUnit = Inr vals"
      "int (length vals) = (1 * int BLOCK_SIZE) div (bits div 8)"
    unfolding unit
    using image_numAxis [of ?rest] image_pixelDataType [of ?rest]
      image_getNumHeaderBlocks [of ?rest] image_getNumDataBlocks [of ?rest]
    by auto
  then have "map_sum id length (getDataValues paddedImageUnit) = Inr 2880"
    using image_bitsPerPixel [of ?rest] by (simp add: unit BLOCK_SIZE_def)
  then show ?thesis
    using image_sizeAxis [of ?rest] by (simp add: unit)
qed

text \<open>
  C8 as stated fails: the image unit with its 4 data bytes and no padding has
  \<open>NAXIS = 2\<close>, \<open>BITPIX = 8\<close> and one data block, and its decode has 4 values, not 2880.
\<close>

theorem getDataValues_length_counterexample:
  "numAxis imageUnit = Inr 2 \<and> getNumDataBlocks imageUnit = Inr (Num 1)
   \<and> bitsPerPixel imageUnit = Inr (Num 8)
   \<and> getDataValues imageUnit = Inr [IntSample 10, IntSample 20, IntSample 30, IntSample 40]
   \<and> map_sum id length (getDataValues imageUnit) \<noteq> Inr ((1 * 2880) div (8 div 8))"
  by (simp add: imageUnit_def image_numAxis image_getNumDataBlocks image_bitsPerPixel
      image_getDataValues)

text \<open>
  C9, at the file of one block whose axis has the length \<open>-2880\<close>: the header scan and the
  size computation succeed, the successor offset is 0, the successor is the file itself, and
  the walk of \<open>load\<close> does not end.
\<close>

theorem load_negativeAxisFile:
  "getNumStructureBytes negativeAxisFile = Inr (Num 0)
   \<and> getNextStructure negativeAxisFile = Inr (Some negativeAxisFile)
   \<and> load negativeAxisFile = None"
  using negativeAxis_getNextStructure loadLoop_self_successor [OF negativeAxis_getNextStructure, of "[]"]
  by (simp add: load_def negativeAxis_getNumStructureBytes)

text \<open>
  C10. The lookup of a keyword takes the value stored for it by the header scan. It
  raises the error of a missing keyword when the stored value is the empty string, as it
  does when no value is stored, and it returns a value just when a non-empty string is
  stored.
\<close>

theorem getMetadataValue_empty_value:
  assumes "getHeaderMap rawData = Inr m"
  shows "(map_of m key = Some [] \<longrightarrow> getMetadataValue rawData key = Inl (KeyNotFound key))
       \<and> (map_of m key = None \<longrightarrow> getMetadataValue rawData key = Inl (KeyNotFound key))
       \<and> (\<forall>v. (getMetadataValue rawData key = Inr v) = (map_of m key = Some v \<and> v \<noteq> []))"
  using assms by (auto simp: getMetadataValue_def split: option.splits)

text \<open>
  In the sample header the record \<open>NAXIS\<close> has only a comment after the value indicator:
  its stored value is empty and the lookup fails as for \<open>BITPIX\<close>, which has no record.
\<close>

theorem getMetadataValue_empty_value_witness:
  "getHeaderMap blankValueFile = Inr [(''SIMPLE'', ''T''), (''NAXIS'', []), (''END'', [])]
   \<and> getMetadataValue blankValueFile ''NAXIS'' = Inl (KeyNotFound ''NAXIS'')
   \<and> getMetadataValue blankValueFile ''BITPIX'' = Inl (KeyNotFound ''BITPIX'')
   \<and> getMetadataValue blankValueFile ''SIMPLE'' = Inr ''T''"
  using getMetadataValue_empty_value [OF blankValue_getHeaderMap, of "''NAXIS''"]
    getMetadataValue_empty_value [OF blankValue_getHeaderMap, of "''BITPIX''"]
    getMetadataValue_empty_value [OF blankValue_getHeaderMap, of "''SIMPLE''"]
  by (simp add: blankValue_getHeaderMap)

end
